theory Spec2Isabelle
  imports Complex_Main "HOL-Library.Word" "HOL-Library.Log_Nat"
begin

unbundle bit_operations_syntax

section \<open>Strings and formatting helpers\<close>

text \<open>
  Go strings are byte sequences; they are modelled as \<open>string\<close> (a list of 8-bit
  characters). \<open>byte c\<close> is the numeric value of a byte.
\<close>

definition byte :: "char \<Rightarrow> nat" where
  "byte c = of_char c"

text \<open>\<open>fmt\<close>'s verb \<open>%d\<close>: decimal digits, with a leading minus sign for negative values.\<close>

definition digit :: "nat \<Rightarrow> char" where
  "digit n = char_of (48 + n)"

fun fmtNat :: "nat \<Rightarrow> string" where
  "fmtNat n = (if n < 10 then [digit n] else fmtNat (n div 10) @ [digit (n mod 10)])"

declare fmtNat.simps [simp del]

definition fmt_d :: "int \<Rightarrow> string" where
  "fmt_d i = (if i < 0 then CHR ''-'' # fmtNat (nat (- i)) else fmtNat (nat i))"

text \<open>\<open>strings.Join\<close>.\<close>

fun Join :: "string list \<Rightarrow> string \<Rightarrow> string" where
  "Join [] sep = []"
| "Join [x] sep = x"
| "Join (x # y # ys) sep = x @ sep @ Join (y # ys) sep"

text \<open>\<open>strings.TrimPrefix(s, "/")\<close>, the only prefix the program trims.\<close>

fun TrimPrefixSlash :: "string \<Rightarrow> string" where
  "TrimPrefixSlash (c # cs) = (if c = CHR ''/'' then cs else c # cs)"
| "TrimPrefixSlash [] = []"

text \<open>
  \<open>strings.ToLower\<close>: a string of ASCII bytes only is lowered byte by byte (and returned as
  it is when it has no upper-case letter); any other string goes through
  \<open>strings.Map(unicode.ToLower, s)\<close>, whose Unicode case tables are not part of this program
  and are taken as the parameter \<open>mapLower\<close>.
\<close>

definition lowerByte :: "char \<Rightarrow> char" where
  "lowerByte c = (if 65 \<le> byte c \<and> byte c \<le> 90 then char_of (byte c + 32) else c)"

definition ToLower :: "(string \<Rightarrow> string) \<Rightarrow> string \<Rightarrow> string" where
  "ToLower mapLower s =
     (if list_all (\<lambda>c. byte c < 128) s
      then (if list_ex (\<lambda>c. 65 \<le> byte c \<and> byte c \<le> 90) s then map lowerByte s else s)
      else mapLower s)"

text \<open>\<open>nz\<close> (main.go, line 269).\<close>

definition nz :: "string \<Rightarrow> string \<Rightarrow> string" where
  "nz s fallback = (if s = [] then fallback else s)"

text \<open>\<open>firstName\<close> (main.go, line 227).\<close>

fun firstName :: "string list \<Rightarrow> string" where
  "firstName [] = []"
| "firstName (n # ns) = TrimPrefixSlash n"

section \<open>UTF-8 and trimming\<close>



text \<open>\<open>strings.ReplaceAll(s, "\r", "")\<close>: every carriage return is removed.\<close>

definition ReplaceAllCR :: "string \<Rightarrow> string" where
  "ReplaceAllCR s = filter (\<lambda>c. c \<noteq> CHR 0x0D) s"

text \<open>
  Package \<open>unicode/utf8\<close>. A rune is modelled by its code point. \<open>first\<close> is the table of
  the same name (information about the first byte of a sequence: \<open>0xF0\<close> for ASCII, \<open>0xF1\<close>
  for an invalid byte, otherwise the index of the accepted range of the second byte in the
  upper four bits and the length of the sequence in the lower three); \<open>acceptRanges\<close> is the
  table of accepted ranges of the second byte.
\<close>

definition RuneError :: nat where
  "RuneError = 0xFFFD"

definition first :: "nat \<Rightarrow> nat" where
  "first b =
     (if b < 0x80 then 0xF0
      else if b < 0xC2 then 0xF1
      else if b < 0xE0 then 0x02
      else if b = 0xE0 then 0x13
      else if b < 0xED then 0x03
      else if b = 0xED then 0x23
      else if b < 0xF0 then 0x03
      else if b = 0xF0 then 0x34
      else if b < 0xF4 then 0x04
      else if b = 0xF4 then 0x44
      else 0xF1)"

definition acceptRanges :: "nat \<Rightarrow> nat \<times> nat" where
  "acceptRanges i =
     (if i = 1 then (0xA0, 0xBF)
      else if i = 2 then (0x80, 0x9F)
      else if i = 3 then (0x90, 0xBF)
      else if i = 4 then (0x80, 0x8F)
      else (0x80, 0xBF))"

text \<open>
  \<open>utf8.DecodeRuneInString\<close>: the first rune of \<open>s\<close> and its width in bytes; an invalid or
  incomplete sequence gives \<open>RuneError\<close> with width 1, the empty string \<open>RuneError\<close> with
  width 0.
\<close>

definition DecodeRuneInString :: "string \<Rightarrow> nat \<times> nat" where
  "DecodeRuneInString s =
     (let n = length s in
      if n < 1 then (RuneError, 0)
      else
        let s0 = byte (s ! 0); x = first s0 in
        if 0xF0 \<le> x then ((if x = 0xF0 then s0 else RuneError), 1)
        else
          let sz = x AND 7; accept = acceptRanges (drop_bit 4 x) in
          if n < sz then (RuneError, 1)
          else
            let s1 = byte (s ! 1) in
            if s1 < fst accept \<or> snd accept < s1 then (RuneError, 1)
            else if sz \<le> 2 then (push_bit 6 (s0 AND 0x1F) OR (s1 AND 0x3F), 2)
            else
              let s2 = byte (s ! 2) in
              if s2 < 0x80 \<or> 0xBF < s2 then (RuneError, 1)
              else if sz \<le> 3
                then (push_bit 12 (s0 AND 0x0F) OR push_bit 6 (s1 AND 0x3F) OR (s2 AND 0x3F), 3)
              else
                let s3 = byte (s ! 3) in
                if s3 < 0x80 \<or> 0xBF < s3 then (RuneError, 1)
                else (push_bit 18 (s0 AND 0x07) OR push_bit 12 (s1 AND 0x3F)
                        OR push_bit 6 (s2 AND 0x3F) OR (s3 AND 0x3F), 4))"

text \<open>
  \<open>utf8.DecodeLastRuneInString\<close>: the last rune of \<open>s\<close> and its width. \<open>scanRuneStart\<close> is
  its loop, which goes back from \<open>start\<close> to the limit \<open>lo\<close> until a byte that can start a
  rune; \<open>lastRuneStart\<close> is the index of the byte where the decoding then starts.
\<close>

definition RuneStart :: "nat \<Rightarrow> bool" where
  "RuneStart b = (b AND 0xC0 \<noteq> 0x80)"

function scanRuneStart :: "string \<Rightarrow> int \<Rightarrow> int \<Rightarrow> int" where
  "scanRuneStart s start lo =
     (if lo \<le> start
      then (if RuneStart (byte (s ! nat start)) then start else scanRuneStart s (start - 1) lo)
      else start)"
  by pat_completeness auto
termination
  by (relation "measure (\<lambda>(s, start, lo). nat (start - lo + 1))") auto

declare scanRuneStart.simps [simp del]

definition lastRuneStart :: "string \<Rightarrow> nat" where
  "lastRuneStart s =
     (let n = int (length s);
          lo = (if n - 4 < 0 then 0 else n - 4);
          start = scanRuneStart s (n - 1 - 1) lo
      in if start < 0 then 0 else nat start)"

definition DecodeLastRuneInString :: "string \<Rightarrow> nat \<times> nat" where
  "DecodeLastRuneInString s =
     (if length s = 0 then (RuneError, 0)
      else
        let r = byte (s ! (length s - 1)) in
        if r < 0x80 then (r, 1)
        else
          let start = lastRuneStart s;
              (r, wid) = DecodeRuneInString (drop start s)
          in if start + wid \<noteq> length s then (RuneError, 1) else (r, wid))"

text \<open>
  \<open>unicode.IsSpace\<close>, and the table \<open>asciiSpace\<close> of package \<open>strings\<close>.
\<close>

definition IsSpace :: "nat \<Rightarrow> bool" where
  "IsSpace r =
     (if r \<le> 0xFF
      then r = 0x09 \<or> r = 0x0A \<or> r = 0x0B \<or> r = 0x0C \<or> r = 0x0D \<or> r = 0x20
           \<or> r = 0x85 \<or> r = 0xA0
      else r = 0x1680 \<or> (0x2000 \<le> r \<and> r \<le> 0x200A) \<or> r = 0x2028 \<or> r = 0x2029
           \<or> r = 0x202F \<or> r = 0x205F \<or> r = 0x3000)"

definition asciiSpace :: "nat \<Rightarrow> bool" where
  "asciiSpace c = (c = 0x09 \<or> c = 0x0A \<or> c = 0x0B \<or> c = 0x0C \<or> c = 0x0D \<or> c = 0x20)"

text \<open>
  Both decoders consume at least one byte of a non-empty string, so the loops of
  \<open>indexFunc\<close> and \<open>lastIndexFunc\<close> terminate.
\<close>

lemma DecodeRuneInString_size: "s \<noteq> [] \<Longrightarrow> 1 \<le> snd (DecodeRuneInString s)"
  by (auto simp: DecodeRuneInString_def Let_def)

lemma scanRuneStart_le: "scanRuneStart s start lo \<le> start"
proof (induction s start lo rule: scanRuneStart.induct)
  case (1 s start lo)
  then show ?case
    by (subst scanRuneStart.simps) auto
qed

lemma lastRuneStart_less: "s \<noteq> [] \<Longrightarrow> lastRuneStart s < length s"
  using scanRuneStart_le [of s "int (length s) - 1 - 1" "if int (length s) - 4 < 0 then 0 else int (length s) - 4"]
  by (auto simp: lastRuneStart_def Let_def)

lemma DecodeLastRuneInString_size: "s \<noteq> [] \<Longrightarrow> 1 \<le> snd (DecodeLastRuneInString s)"
proof -
  assume ne: "s \<noteq> []"
  then have "drop (lastRuneStart s) s \<noteq> []"
    using lastRuneStart_less [OF ne] by simp
  then have "1 \<le> snd (DecodeRuneInString (drop (lastRuneStart s) s))"
    by (rule DecodeRuneInString_size)
  then show ?thesis
    using ne by (auto simp add: DecodeLastRuneInString_def Let_def split: prod.splits)
qed

text \<open>
  \<open>indexFunc\<close> and \<open>lastIndexFunc\<close> of package \<open>strings\<close>: the index of the first, or of the
  last, rune \<open>r\<close> with \<open>f r = truth\<close>, or \<open>- 1\<close>. \<open>indexFunc\<close> ranges over the runes of
  \<open>s\<close> from the index \<open>i\<close> on; \<open>lastIndexFunc\<close> decodes the last rune of the prefix that is
  left.
\<close>

function indexFunc :: "string \<Rightarrow> (nat \<Rightarrow> bool) \<Rightarrow> bool \<Rightarrow> nat \<Rightarrow> int" where
  "indexFunc s f truth i =
     (if i < length s
      then (let (r, wid) = DecodeRuneInString (drop i s)
            in if f r = truth then int i else indexFunc s f truth (i + wid))
      else - 1)"
  by pat_completeness auto
termination
proof (relation "measure (\<lambda>(s, f, truth, i). length s - i)")
  fix s :: string and f :: "nat \<Rightarrow> bool" and truth :: bool and i :: nat
    and x :: "nat \<times> nat" and r wid :: nat
  assume "i < length s" and "x = DecodeRuneInString (drop i s)" and "(r, wid) = x"
  then have "1 \<le> wid"
    using DecodeRuneInString_size [of "drop i s"] by (metis drop_eq_Nil2 not_less snd_conv)
  with \<open>i < length s\<close> show "((s, f, truth, i + wid), (s, f, truth, i)) \<in> measure (\<lambda>(s, f, truth, i). length s - i)"
    by simp
qed simp

declare indexFunc.simps [simp del]

function lastIndexFunc :: "string \<Rightarrow> (nat \<Rightarrow> bool) \<Rightarrow> bool \<Rightarrow> int" where
  "lastIndexFunc s f truth =
     (if 0 < length s
      then (let (r, wid) = DecodeLastRuneInString s; i = int (length s) - int wid
            in if f r = truth then i else lastIndexFunc (take (nat i) s) f truth)
      else - 1)"
  by pat_completeness auto
termination
proof (relation "measure (\<lambda>(s, f, truth). length s)")
  fix s :: string and f :: "nat \<Rightarrow> bool" and truth :: bool
    and x :: "nat \<times> nat" and r wid :: nat and i :: int
  assume "0 < length s" and "x = DecodeLastRuneInString s" and "(r, wid) = x"
    and "i = int (length s) - int wid"
  then have "1 \<le> wid"
    using DecodeLastRuneInString_size [of s] by (metis length_greater_0_conv snd_conv)
  with \<open>0 < length s\<close> \<open>i = int (length s) - int wid\<close>
  have "nat i < length s"
    by linarith
  then show "((take (nat i) s, f, truth), (s, f, truth)) \<in> measure (\<lambda>(s, f, truth). length s)"
    by simp
qed simp

declare lastIndexFunc.simps [simp del]

text \<open>\<open>strings.TrimLeftFunc\<close>, \<open>strings.TrimRightFunc\<close> and \<open>strings.TrimFunc\<close>.\<close>

definition TrimLeftFunc :: "string \<Rightarrow> (nat \<Rightarrow> bool) \<Rightarrow> string" where
  "TrimLeftFunc s f =
     (let i = indexFunc s f False 0 in if i = - 1 then [] else drop (nat i) s)"

definition TrimRightFunc :: "string \<Rightarrow> (nat \<Rightarrow> bool) \<Rightarrow> string" where
  "TrimRightFunc s f =
     (let i = lastIndexFunc s f False;
          i' = (if 0 \<le> i \<and> 0x80 \<le> byte (s ! nat i)
                then i + int (snd (DecodeRuneInString (drop (nat i) s)))
                else i + 1)
      in take (nat i') s)"

definition TrimFunc :: "string \<Rightarrow> (nat \<Rightarrow> bool) \<Rightarrow> string" where
  "TrimFunc s f = TrimRightFunc (TrimLeftFunc s f) f"

text \<open>
  \<open>strings.TrimSpace\<close>. The first loop (\<open>trimSpaceStart\<close>) skips leading ASCII white space
  and hands over to \<open>TrimFunc\<close> at a byte that is not ASCII; the second loop
  (\<open>trimSpaceStop\<close>, on the part \<open>s[start:stop]\<close> that is left) drops trailing ASCII white
  space and hands over to \<open>TrimRightFunc\<close> at a byte that is not ASCII.
\<close>

function trimSpaceStop :: "string \<Rightarrow> string" where
  "trimSpaceStop v =
     (if 0 < length v
      then (let c = byte (last v) in
            if 0x80 \<le> c then TrimRightFunc v IsSpace
            else if \<not> asciiSpace c then v
            else trimSpaceStop (butlast v))
      else v)"
  by pat_completeness auto
termination
  by (relation "measure length") auto

declare trimSpaceStop.simps [simp del]

fun trimSpaceStart :: "string \<Rightarrow> string" where
  "trimSpaceStart [] = trimSpaceStop []"
| "trimSpaceStart (c # cs) =
     (if 0x80 \<le> byte c then TrimFunc (c # cs) IsSpace
      else if \<not> asciiSpace (byte c) then trimSpaceStop (c # cs)
      else trimSpaceStart cs)"

definition TrimSpace :: "string \<Rightarrow> string" where
  "TrimSpace s = trimSpaceStart s"

section \<open>Port formatting\<close>

text \<open>\<open>types.Port\<close> of the Docker API: both port numbers are \<open>uint16\<close>.\<close>

record Port =
  IP :: string
  PrivatePort :: "16 word"
  PublicPort :: "16 word"
  Type :: string

text \<open>
  \<open>formatPorts\<close> (main.go, line 234). The loop appends one formatted entry per port to
  \<open>out\<close>; \<open>formatPortsStep\<close> is its body.
\<close>

definition formatPortsStep :: "(string \<Rightarrow> string) \<Rightarrow> string list \<Rightarrow> Port \<Rightarrow> string list" where
  "formatPortsStep mapLower out p =
     (if 0 < PublicPort p
      then out @ [nz (IP p) ''0.0.0.0'' @ '':'' @ fmt_d (uint (PublicPort p)) @ ''->''
                  @ fmt_d (uint (PrivatePort p)) @ ''/'' @ ToLower mapLower (Type p)]
      else out @ [fmt_d (uint (PrivatePort p)) @ ''/'' @ ToLower mapLower (Type p)])"

definition formatPorts :: "(string \<Rightarrow> string) \<Rightarrow> Port list \<Rightarrow> string" where
  "formatPorts mapLower ports =
     (if length ports = 0 then ''-''
      else Join (foldl (formatPortsStep mapLower) [] ports) '', '')"

text \<open>
  The rendering of one binding in the words of the specification: with a public port set,
  address (or \<open>0.0.0.0\<close>), public port, arrow, private port, slash, lower-cased protocol;
  otherwise private port, slash, lower-cased protocol.
\<close>

definition spec_binding :: "(string \<Rightarrow> string) \<Rightarrow> Port \<Rightarrow> string" where
  "spec_binding mapLower p =
     (if PublicPort p = 0
      then fmt_d (int (unat (PrivatePort p))) @ ''/'' @ ToLower mapLower (Type p)
      else (if IP p = [] then ''0.0.0.0'' else IP p) @ '':'' @ fmt_d (int (unat (PublicPort p)))
           @ ''->'' @ fmt_d (int (unat (PrivatePort p))) @ ''/'' @ ToLower mapLower (Type p))"

section \<open>Stable sorting\<close>

text \<open>
  \<open>sort.SliceStable\<close> of the Go library: insertion sort on blocks of 20 elements, then
  passes of in-place merging (\<open>symMerge\<close>) of neighbouring blocks of doubling size.
  \<open>lessf\<close> compares two elements of the slice and \<open>swap\<close> exchanges two of them.
\<close>

definition swap :: "'a list \<Rightarrow> nat \<Rightarrow> nat \<Rightarrow> 'a list" where
  "swap data i j = data[i := data ! j, j := data ! i]"

text \<open>
  \<open>insertionSort\<close> on \<open>data[a:b]\<close>: \<open>insertionOuter\<close> is the loop over \<open>i\<close>,
  \<open>insertionInner\<close> the loop over \<open>j\<close> that moves the element at \<open>i\<close> down.
\<close>

function insertionInner :: "('a \<Rightarrow> 'a \<Rightarrow> bool) \<Rightarrow> 'a list \<Rightarrow> nat \<Rightarrow> nat \<Rightarrow> 'a list" where
  "insertionInner lessf data a j =
     (if a < j \<and> lessf (data ! j) (data ! (j - 1))
      then insertionInner lessf (swap data j (j - 1)) a (j - 1)
      else data)"
  by pat_completeness auto
termination
  by (relation "measure (\<lambda>(lessf, data, a, j). j)") auto

function insertionOuter :: "('a \<Rightarrow> 'a \<Rightarrow> bool) \<Rightarrow> 'a list \<Rightarrow> nat \<Rightarrow> nat \<Rightarrow> nat \<Rightarrow> 'a list" where
  "insertionOuter lessf data a b i =
     (if i < b then insertionOuter lessf (insertionInner lessf data a i) a b (i + 1) else data)"
  by pat_completeness auto
termination
  by (relation "measure (\<lambda>(lessf, data, a, b, i). b - i)") auto

definition insertionSort :: "('a \<Rightarrow> 'a \<Rightarrow> bool) \<Rightarrow> 'a list \<Rightarrow> nat \<Rightarrow> nat \<Rightarrow> 'a list" where
  "insertionSort lessf data a b = insertionOuter lessf data a b (a + 1)"

text \<open>
  \<open>swapRange\<close> exchanges \<open>data[a:a+n]\<close> and \<open>data[b:b+n]\<close>; \<open>rotate\<close> exchanges the two
  neighbouring blocks \<open>data[a:m]\<close> and \<open>data[m:b]\<close>. The library calls \<open>rotate\<close> with
  \<open>a < m < b\<close> only; its loop is not entered here with an empty block, where it would not
  end.
\<close>

function swapRange :: "'a list \<Rightarrow> nat \<Rightarrow> nat \<Rightarrow> nat \<Rightarrow> nat \<Rightarrow> 'a list" where
  "swapRange data a b n i =
     (if i < n then swapRange (swap data (a + i) (b + i)) a b n (i + 1) else data)"
  by pat_completeness auto
termination
  by (relation "measure (\<lambda>(data, a, b, n, i). n - i)") auto

function rotateLoop :: "'a list \<Rightarrow> nat \<Rightarrow> nat \<Rightarrow> nat \<Rightarrow> 'a list" where
  "rotateLoop data m i j =
     (if i = 0 \<or> j = 0 then data
      else if i \<noteq> j
      then (if j < i
            then rotateLoop (swapRange data (m - i) m j 0) m (i - j) j
            else rotateLoop (swapRange data (m - i) (m + j - i) i 0) m i (j - i))
      else swapRange data (m - i) m i 0)"
  by pat_completeness auto
termination
  by (relation "measure (\<lambda>(data, m, i, j). i + j)") auto

definition rotate :: "'a list \<Rightarrow> nat \<Rightarrow> nat \<Rightarrow> nat \<Rightarrow> 'a list" where
  "rotate data a m b = rotateLoop data m (m - a) (b - m)"

text \<open>
  The three binary searches of \<open>symMerge\<close>, and the two loops that move one element up to
  the position before \<open>i\<close>, or down to the position \<open>i\<close>, by swaps of neighbours.
\<close>

function searchLow :: "('a \<Rightarrow> 'a \<Rightarrow> bool) \<Rightarrow> 'a list \<Rightarrow> nat \<Rightarrow> nat \<Rightarrow> nat \<Rightarrow> nat" where
  "searchLow lessf data a i j =
     (if i < j
      then (let h = (i + j) div 2 in
            if lessf (data ! h) (data ! a) then searchLow lessf data a (h + 1) j
            else searchLow lessf data a i h)
      else i)"
  by pat_completeness auto
termination
  by (relation "measure (\<lambda>(lessf, data, a, i, j). j - i)") auto

function searchHigh :: "('a \<Rightarrow> 'a \<Rightarrow> bool) \<Rightarrow> 'a list \<Rightarrow> nat \<Rightarrow> nat \<Rightarrow> nat \<Rightarrow> nat" where
  "searchHigh lessf data m i j =
     (if i < j
      then (let h = (i + j) div 2 in
            if \<not> lessf (data ! m) (data ! h) then searchHigh lessf data m (h + 1) j
            else searchHigh lessf data m i h)
      else i)"
  by pat_completeness auto
termination
  by (relation "measure (\<lambda>(lessf, data, m, i, j). j - i)") auto

function searchSym :: "('a \<Rightarrow> 'a \<Rightarrow> bool) \<Rightarrow> 'a list \<Rightarrow> nat \<Rightarrow> nat \<Rightarrow> nat \<Rightarrow> nat" where
  "searchSym lessf data p start r =
     (if start < r
      then (let c = (start + r) div 2 in
            if \<not> lessf (data ! (p - c)) (data ! c) then searchSym lessf data p (c + 1) r
            else searchSym lessf data p start c)
      else start)"
  by pat_completeness auto
termination
  by (relation "measure (\<lambda>(lessf, data, p, start, r). r - start)") auto

function shiftUp :: "'a list \<Rightarrow> nat \<Rightarrow> nat \<Rightarrow> 'a list" where
  "shiftUp data k i = (if k + 1 < i then shiftUp (swap data k (k + 1)) (k + 1) i else data)"
  by pat_completeness auto
termination
  by (relation "measure (\<lambda>(data, k, i). i - k)") auto

function shiftDown :: "'a list \<Rightarrow> nat \<Rightarrow> nat \<Rightarrow> 'a list" where
  "shiftDown data k i = (if i < k then shiftDown (swap data k (k - 1)) (k - 1) i else data)"
  by pat_completeness auto
termination
  by (relation "measure (\<lambda>(data, k, i). k)") auto

text \<open>
  \<open>symMerge\<close> merges the sorted blocks \<open>data[a:m]\<close> and \<open>data[m:b]\<close>. \<open>symSplit\<close> is
  its middle part: the search for the split point and the rotation; it gives \<open>start\<close>,
  \<open>end\<close> and the slice after the rotation.
\<close>

definition symSplit :: "('a \<Rightarrow> 'a \<Rightarrow> bool) \<Rightarrow> 'a list \<Rightarrow> nat \<Rightarrow> nat \<Rightarrow> nat \<Rightarrow> nat \<times> nat \<times> 'a list" where
  "symSplit lessf data a m b =
     (let mid = (a + b) div 2;
          n = mid + m;
          start0 = (if mid < m then n - b else a);
          r = (if mid < m then mid else m);
          p = n - 1;
          start = searchSym lessf data p start0 r;
          e = n - start
      in (start, e, if start < m \<and> m < e then rotate data start m e else data))"

function symMerge :: "('a \<Rightarrow> 'a \<Rightarrow> bool) \<Rightarrow> 'a list \<Rightarrow> nat \<Rightarrow> nat \<Rightarrow> nat \<Rightarrow> 'a list" where
  "symMerge lessf data a m b =
     (if m - a = 1 then shiftUp data a (searchLow lessf data a m b)
      else if b - m = 1 then shiftDown data m (searchHigh lessf data m a m)
      else
        (let mid = (a + b) div 2;
             (start, e, data1) = symSplit lessf data a m b;
             data2 = (if a < start \<and> start < mid then symMerge lessf data1 a start mid else data1)
         in if mid < e \<and> e < b then symMerge lessf data2 mid e b else data2))"
  by pat_completeness auto
termination
proof (relation "measure (\<lambda>(lessf, data, a, m, b). b - a)")
  show "wf (measure (\<lambda>(lessf, data, a, m, b). b - a))"
    by simp
next
  fix lessf :: "'a \<Rightarrow> 'a \<Rightarrow> bool" and data :: "'a list" and a m b mid start e :: nat
    and x :: "nat \<times> nat \<times> 'a list" and y :: "nat \<times> 'a list" and data1 :: "'a list"
  assume "mid = (a + b) div 2" and "a < start \<and> start < mid"
  then show "((lessf, data1, a, start, mid), (lessf, data, a, m, b))
             \<in> measure (\<lambda>(lessf, data, a, m, b). b - a)"
    by simp arith
next
  fix lessf :: "'a \<Rightarrow> 'a \<Rightarrow> bool" and data :: "'a list" and a m b mid start e :: nat
    and data2 :: "'a list"
  assume "mid = (a + b) div 2" and "mid < e \<and> e < b"
  then show "((lessf, data2, mid, e, b), (lessf, data, a, m, b))
             \<in> measure (\<lambda>(lessf, data, a, m, b). b - a)"
    by simp arith
qed

declare insertionInner.simps [simp del] insertionOuter.simps [simp del] swapRange.simps [simp del]
  rotateLoop.simps [simp del] searchLow.simps [simp del] searchHigh.simps [simp del]
  searchSym.simps [simp del] shiftUp.simps [simp del] shiftDown.simps [simp del]
  symMerge.simps [simp del]

text \<open>
  \<open>stable\<close>: \<open>insertionBlocks\<close> is its first loop, \<open>mergePasses\<close> its second loop and
  \<open>mergeBlocks\<close> the loop inside the second loop. The block size is 20 and "must be > 0",
  as the library says.
\<close>

function insertionBlocks :: "('a \<Rightarrow> 'a \<Rightarrow> bool) \<Rightarrow> 'a list \<Rightarrow> nat \<Rightarrow> nat \<Rightarrow> nat \<Rightarrow> 'a list \<times> nat" where
  "insertionBlocks lessf data n blockSize a =
     (if 0 < blockSize \<and> a + blockSize \<le> n
      then insertionBlocks lessf (insertionSort lessf data a (a + blockSize)) n blockSize
             (a + blockSize)
      else (data, a))"
  by pat_completeness auto
termination
  by (relation "measure (\<lambda>(lessf, data, n, blockSize, a). n - a)") auto

function mergeBlocks :: "('a \<Rightarrow> 'a \<Rightarrow> bool) \<Rightarrow> 'a list \<Rightarrow> nat \<Rightarrow> nat \<Rightarrow> nat \<Rightarrow> 'a list \<times> nat" where
  "mergeBlocks lessf data n blockSize a =
     (if 0 < blockSize \<and> a + 2 * blockSize \<le> n
      then mergeBlocks lessf (symMerge lessf data a (a + blockSize) (a + 2 * blockSize)) n
             blockSize (a + 2 * blockSize)
      else (data, a))"
  by pat_completeness auto
termination
  by (relation "measure (\<lambda>(lessf, data, n, blockSize, a). n - a)") auto

function mergePasses :: "('a \<Rightarrow> 'a \<Rightarrow> bool) \<Rightarrow> 'a list \<Rightarrow> nat \<Rightarrow> nat \<Rightarrow> 'a list" where
  "mergePasses lessf data n blockSize =
     (if 0 < blockSize \<and> blockSize < n
      then (let (data1, a) = mergeBlocks lessf data n blockSize 0;
                m = a + blockSize;
                data2 = (if m < n then symMerge lessf data1 a m n else data1)
            in mergePasses lessf data2 n (2 * blockSize))
      else data)"
  by pat_completeness auto
termination
  by (relation "measure (\<lambda>(lessf, data, n, blockSize). n - blockSize)") auto

declare insertionBlocks.simps [simp del] mergeBlocks.simps [simp del] mergePasses.simps [simp del]

definition stable :: "('a \<Rightarrow> 'a \<Rightarrow> bool) \<Rightarrow> 'a list \<Rightarrow> nat \<Rightarrow> 'a list" where
  "stable lessf data n =
     (let blockSize = 20;
          (data1, a) = insertionBlocks lessf data n blockSize 0;
          data2 = insertionSort lessf data1 a n
      in mergePasses lessf data2 n blockSize)"

definition SliceStable :: "'a list \<Rightarrow> ('a \<Rightarrow> 'a \<Rightarrow> bool) \<Rightarrow> 'a list" where
  "SliceStable x lessf = stable lessf x (length x)"


section \<open>Time and durations\<close>

text \<open>
  A \<open>time.Time\<close> is modelled by the number of nanoseconds since the zero time (January 1,
  year 1, 00:00:00 UTC), a \<open>time.Duration\<close> by its number of nanoseconds (an \<open>int64\<close>).
\<close>

definition zeroTime :: int where
  "zeroTime = 0"

definition IsZero :: "int \<Rightarrow> bool" where
  "IsZero t = (t = zeroTime)"

text \<open>
  \<open>Time.Sub\<close>: the difference, or the smallest or largest duration when the difference does
  not fit an \<open>int64\<close>. \<open>time.Since(t)\<close> is \<open>Now().Sub(t)\<close> for a time without a monotonic clock
  reading, as a parsed time is.
\<close>

definition minDuration :: int where
  "minDuration = - (2 ^ 63)"

definition maxDuration :: int where
  "maxDuration = 2 ^ 63 - 1"

definition Sub :: "int \<Rightarrow> int \<Rightarrow> int" where
  "Sub t u =
     (let d = t - u in
      if minDuration \<le> d \<and> d \<le> maxDuration then d
      else if t < u then minDuration else maxDuration)"

text \<open>Integer division and remainder of Go truncate toward zero.\<close>

definition quo :: "int \<Rightarrow> int \<Rightarrow> int" where
  "quo a b = sgn a * sgn b * (\<bar>a\<bar> div \<bar>b\<bar>)"

definition rem :: "int \<Rightarrow> int \<Rightarrow> int" where
  "rem a b = a - b * quo a b"

text \<open>
  The values of \<open>float64\<close> are rational numbers. \<open>float64 x\<close> is the value nearest to \<open>x\<close>
  with a significand of 53 bits, the even significand in a tie (the rounding of every
  conversion and arithmetic operation of Go on \<open>float64\<close>); below \<open>2 ^ - 1022\<close> the spacing
  is that of the subnormal numbers. Overflow to infinity is not modelled: no value of this
  program reaches \<open>2 ^ 1024\<close>, all of them being sums and quotients of numbers below
  \<open>2 ^ 63\<close>.
\<close>

definition roundEven :: "rat \<Rightarrow> int" where
  "roundEven m =
     (let f = \<lfloor>m\<rfloor>; r = m - of_int f in
      if r < 1 / 2 then f
      else if 1 / 2 < r then f + 1
      else if even f then f else f + 1)"

definition pow2 :: "int \<Rightarrow> rat" where
  "pow2 k = (if 0 \<le> k then 2 ^ nat k else 1 / 2 ^ nat (- k))"

text \<open>\<open>ilog2 x\<close> is the exponent \<open>e\<close> with \<open>2 ^ e \<le> \<bar>x\<bar> < 2 ^ (e + 1)\<close>, for \<open>x \<noteq> 0\<close>.\<close>

definition ilog2 :: "rat \<Rightarrow> int" where
  "ilog2 x =
     (let (p, q) = quotient_of \<bar>x\<bar>; k = bitlen p - bitlen q
      in if pow2 k \<le> \<bar>x\<bar> then k else k - 1)"

definition float64 :: "rat \<Rightarrow> rat" where
  "float64 x =
     (if x = 0 then 0
      else let e = ilog2 x; q = pow2 (max (e - 52) (- 1074))
           in of_int (roundEven (x / q)) * q)"

text \<open>The conversion \<open>int(f)\<close> of a \<open>float64\<close> drops the fraction (truncation toward zero).\<close>

definition toInt :: "rat \<Rightarrow> int" where
  "toInt f = (if 0 \<le> f then \<lfloor>f\<rfloor> else \<lceil>f\<rceil>)"

definition Second :: int where
  "Second = 1000000000"

definition Minute :: int where
  "Minute = 60 * Second"

definition Hour :: int where
  "Hour = 60 * Minute"

text \<open>
  \<open>Duration.Seconds\<close>, \<open>Duration.Minutes\<close> and \<open>Duration.Hours\<close> of package \<open>time\<close>: the
  whole units and the remaining nanoseconds are converted to \<open>float64\<close> separately, the
  remainder is divided by the length of the unit and added.
\<close>

definition Seconds :: "int \<Rightarrow> rat" where
  "Seconds d =
     (let sec = quo d Second; nsec = rem d Second
      in float64 (float64 (of_int sec) + float64 (float64 (of_int nsec) / 1000000000)))"

definition Minutes :: "int \<Rightarrow> rat" where
  "Minutes d =
     (let min = quo d Minute; nsec = rem d Minute
      in float64 (float64 (of_int min) + float64 (float64 (of_int nsec) / 60000000000)))"

definition Hours :: "int \<Rightarrow> rat" where
  "Hours d =
     (let h = quo d Hour; nsec = rem d Hour
      in float64 (float64 (of_int h) + float64 (float64 (of_int nsec) / 3600000000000)))"

text \<open>
  \<open>since\<close> (main.go, line 257), for the reading \<open>now\<close> of the clock taken by \<open>time.Since\<close>;
  \<open>sinceDuration\<close> is the function after its first line.
\<close>

definition sinceDuration :: "int \<Rightarrow> string" where
  "sinceDuration d =
     (if d < Minute then fmt_d (toInt (Seconds d)) @ '' seconds''
      else if d < Hour then fmt_d (toInt (Minutes d)) @ '' minutes''
      else if d < 24 * Hour then fmt_d (toInt (Hours d)) @ '' hours''
      else fmt_d (toInt (float64 (Hours d / 24))) @ '' days'')"

definition since :: "int \<Rightarrow> int \<Rightarrow> string" where
  "since now t = sinceDuration (Sub now t)"

text \<open>
  Two notions for the proofs: \<open>normal x\<close> says that \<open>x\<close> is not below the normal range of
  \<open>float64\<close>, and \<open>inUnits U d\<close> is the common shape of the three methods above, for the
  unit \<open>U\<close>.
\<close>

definition normal :: "rat \<Rightarrow> bool" where
  "normal x = (pow2 (- 1022) \<le> \<bar>x\<bar>)"

definition inUnits :: "int \<Rightarrow> int \<Rightarrow> rat" where
  "inUnits U d =
     float64 (float64 (of_int (quo d U)) + float64 (float64 (of_int (rem d U)) / of_int U))"

section \<open>The application\<close>

subsection \<open>Data of the Docker API and of the program\<close>

text \<open>
  \<open>types.Container\<close>, as far as the program reads it, and the part of the inspection result
  the program reads (\<open>ins.State.Status\<close> and \<open>ins.State.StartedAt\<close>).
\<close>

record Container =
  cID :: string
  cNames :: "string list"
  cImage :: string
  cState :: string
  cStatus :: string
  cPorts :: "Port list"

record ContainerJSON =
  insStatus :: string
  insStartedAt :: string

text \<open>\<open>ContainerSummary\<close> (main.go, line 20).\<close>

record ContainerSummary =
  ID :: string
  Name :: string
  Image :: string
  State :: string
  Status :: string
  Ports :: string

text \<open>A Go call that returns \<open>(value, error)\<close>; the error is kept as its message.\<close>

datatype 'a result = Ok 'a | Err string

text \<open>
  The requests sent through the Docker client: list (with the \<open>All\<close> option), inspect (with
  the container id), logs (with the container id and the \<open>Tail\<close> option).
\<close>

datatype Request = ListRequest bool | InspectRequest string | LogsRequest string string

text \<open>
  Everything outside the program. The daemon answers a request depending on the requests
  made before it; for the logs, the outer result is that of \<open>ContainerLogs\<close> and the inner
  one that of \<open>io.ReadAll\<close> on the returned reader. \<open>Now n\<close> is the \<open>n\<close>-th reading of the
  clock. The layouts of package \<open>time\<close> are parameters: \<open>FormatClock\<close> is
  \<open>Format("15:04:05 ")\<close>, \<open>FormatRFC1123\<close> is \<open>Local().Format(time.RFC1123)\<close>, \<open>Parse\<close> is
  \<open>time.Parse(time.RFC3339Nano, s)\<close>; \<open>MapLower\<close> is the Unicode path of
  \<open>strings.ToLower\<close>.
\<close>

record Env =
  ContainerList :: "Request list \<Rightarrow> Container list result"
  ContainerInspect :: "Request list \<Rightarrow> string \<Rightarrow> ContainerJSON result"
  ContainerLogs :: "Request list \<Rightarrow> string \<Rightarrow> string \<Rightarrow> string result result"
  Now :: "nat \<Rightarrow> int"
  FormatClock :: "int \<Rightarrow> string"
  FormatRFC1123 :: "int \<Rightarrow> string"
  Parse :: "string \<Rightarrow> int result"
  MapLower :: "string \<Rightarrow> string"

text \<open>The table widget: its cells, by row and column, and the selected cell.\<close>

datatype Alignment = AlignLeft | AlignCenter | AlignRight

record TableCell =
  Text :: string
  Align :: Alignment
  NotSelectable :: bool
  MaxWidth :: int
  Expansion :: int

record Table =
  cells :: "nat \<times> nat \<Rightarrow> TableCell option"
  selectedRow :: int
  selectedColumn :: int

text \<open>
  \<open>App\<close> (main.go, line 29): the table, the three text views and the summary list. The
  client handle \<open>cli\<close> is represented by the requests sent through it so far, the
  application \<open>ui\<close> by whether it has been stopped; \<open>clockReads\<close> counts the readings of
  the clock.
\<close>

record App =
  table :: Table
  details :: string
  logs :: string
  statusBar :: string
  containers :: "ContainerSummary list"
  requests :: "Request list"
  stopped :: bool
  clockReads :: nat

subsection \<open>Widgets\<close>

definition NewTableCell :: "string \<Rightarrow> TableCell" where
  "NewTableCell text =
     \<lparr>Text = text, Align = AlignLeft, NotSelectable = False, MaxWidth = 0, Expansion = 0\<rparr>"

text \<open>\<open>cell\<close> (main.go, line 223).\<close>

definition cell :: "string \<Rightarrow> TableCell" where
  "cell text = (NewTableCell text)\<lparr>MaxWidth := 0, Expansion := 1\<rparr>"

definition headerCell :: "string \<Rightarrow> TableCell" where
  "headerCell h = (NewTableCell (''[::b]'' @ h))\<lparr>Align := AlignCenter, NotSelectable := True\<rparr>"

definition SetCell :: "Table \<Rightarrow> nat \<Rightarrow> nat \<Rightarrow> TableCell \<Rightarrow> Table" where
  "SetCell t row column c = t\<lparr>cells := (cells t)((row, column) \<mapsto> c)\<rparr>"

definition Clear :: "Table \<Rightarrow> Table" where
  "Clear t = t\<lparr>cells := (\<lambda>rc. None)\<rparr>"

definition Select :: "Table \<Rightarrow> int \<Rightarrow> int \<Rightarrow> Table" where
  "Select t row column = t\<lparr>selectedRow := row, selectedColumn := column\<rparr>"

definition headers :: "string list" where
  "headers = [''Name'', ''Image'', ''State'', ''Status'', ''Ports'']"

fun setHeaders :: "Table \<Rightarrow> nat \<Rightarrow> string list \<Rightarrow> Table" where
  "setHeaders t c [] = t"
| "setHeaders t c (h # hs) = setHeaders (SetCell t 0 c (headerCell h)) (c + 1) hs"

subsection \<open>The client and the clock\<close>

definition clientList :: "Env \<Rightarrow> App \<Rightarrow> Container list result \<times> App" where
  "clientList env a =
     (ContainerList env (requests a), a\<lparr>requests := requests a @ [ListRequest True]\<rparr>)"

definition clientInspect :: "Env \<Rightarrow> App \<Rightarrow> string \<Rightarrow> ContainerJSON result \<times> App" where
  "clientInspect env a containerID =
     (ContainerInspect env (requests a) containerID,
      a\<lparr>requests := requests a @ [InspectRequest containerID]\<rparr>)"

definition clientLogs :: "Env \<Rightarrow> App \<Rightarrow> string \<Rightarrow> string \<Rightarrow> string result result \<times> App" where
  "clientLogs env a containerID tail =
     (ContainerLogs env (requests a) containerID tail,
      a\<lparr>requests := requests a @ [LogsRequest containerID tail]\<rparr>)"

definition timeNow :: "Env \<Rightarrow> App \<Rightarrow> int \<times> App" where
  "timeNow env a = (Now env (clockReads a), a\<lparr>clockReads := clockReads a + 1\<rparr>)"

subsection \<open>Operations\<close>

text \<open>
  \<open>setStatus\<close> (main.go, line 111); \<open>msg\<close> is the message formatted by its caller.
\<close>

definition setStatus :: "Env \<Rightarrow> App \<Rightarrow> string \<Rightarrow> App" where
  "setStatus env a msg =
     (let (now, a1) = timeNow env a in a1\<lparr>statusBar := FormatClock env now @ msg\<rparr>)"

text \<open>\<open>parseTime\<close> (main.go, line 249).\<close>

definition parseTime :: "Env \<Rightarrow> string \<Rightarrow> int" where
  "parseTime env s = (case Parse env s of Err e \<Rightarrow> zeroTime | Ok t \<Rightarrow> t)"

text \<open>\<open>fetchLogs\<close> (main.go, line 201).\<close>

definition fetchLogs :: "Env \<Rightarrow> App \<Rightarrow> string \<Rightarrow> int \<Rightarrow> string result \<times> App" where
  "fetchLogs env a containerID n =
     (let (res, a1) = clientLogs env a containerID (fmt_d n) in
      case res of
        Err e \<Rightarrow> (Err e, a1)
      | Ok rdr \<Rightarrow>
          (case rdr of
             Err e \<Rightarrow> (Err e, a1)
           | Ok b \<Rightarrow> (Ok (TrimSpace (ReplaceAllCR b)), a1)))"

text \<open>
  An index expression \<open>xs[i]\<close> of Go panics when the index is out of range; \<open>None\<close> is the
  panic.
\<close>

definition indexAt :: "'a list \<Rightarrow> int \<Rightarrow> 'a option" where
  "indexAt xs i = (if 0 \<le> i \<and> i < int (length xs) then Some (xs ! nat i) else None)"

definition newline :: string where
  "newline = [CHR 0x0A]"

text \<open>
  The success branch of the inspection in \<open>showForRow\<close> (main.go, lines 179 to 189): the text
  of the details view.
\<close>

definition detailsText :: "Env \<Rightarrow> App \<Rightarrow> ContainerSummary \<Rightarrow> ContainerJSON \<Rightarrow> string \<times> App" where
  "detailsText env a c ins =
     (let started = parseTime env (insStartedAt ins);
          b = ''[::b]Name:[-] '' @ Name c @ newline
            @ ''[::b]ID:[-] '' @ ID c @ newline
            @ ''[::b]Image:[-] '' @ Image c @ newline
            @ ''[::b]State:[-] '' @ insStatus ins @ newline
            @ ''[::b]Status:[-] '' @ Status c @ newline
      in if \<not> IsZero started
         then (let (now, a1) = timeNow env a
               in (b @ ''[::b]Started:[-] '' @ FormatRFC1123 env started
                     @ '' ('' @ since now started @ '' ago)'' @ newline, a1))
         else (b, a))"

text \<open>
  \<open>showForRow\<close> (main.go, line 167). \<open>showContainer\<close> is the function after the lookup of
  the summary \<open>c\<close> (lines 173 to 199). The result of \<open>showForRow\<close> is \<open>None\<close> when the function
  panics.
\<close>

definition showContainer :: "Env \<Rightarrow> App \<Rightarrow> ContainerSummary \<Rightarrow> App" where
  "showContainer env a c =
     (let (ins, a1) = clientInspect env a (ID c);
          a2 = (case ins of
                  Err e \<Rightarrow> a1\<lparr>details := ''[red]Inspect error: '' @ e\<rparr>
                | Ok i \<Rightarrow> (let (text, a') = detailsText env a1 c i in a'\<lparr>details := text\<rparr>));
          (lg, a3) = fetchLogs env a2 (ID c) 5
      in case lg of
           Err e \<Rightarrow> a3\<lparr>logs := ''[red]Logs error: '' @ e\<rparr>
         | Ok l \<Rightarrow> a3\<lparr>logs := (if TrimSpace l = [] then ''(no logs)'' else l)\<rparr>)"

definition showForRow :: "Env \<Rightarrow> App \<Rightarrow> int \<Rightarrow> App option" where
  "showForRow env a row =
     (let idx = row - 1 in
      if idx < 0 \<or> int (length (containers a)) \<le> idx then Some a
      else
        case indexAt (containers a) idx of
          None \<Rightarrow> None
        | Some c \<Rightarrow> Some (showContainer env a c))"

text \<open>The comparison function given to \<open>sort.SliceStable\<close> (main.go, lines 124 to 130).\<close>

fun stringLess :: "string \<Rightarrow> string \<Rightarrow> bool" where
  "stringLess [] [] = False"
| "stringLess [] (y # ys) = True"
| "stringLess (x # xs) [] = False"
| "stringLess (x # xs) (y # ys) = (byte x < byte y \<or> (byte x = byte y \<and> stringLess xs ys))"

definition lessContainer :: "Container \<Rightarrow> Container \<Rightarrow> bool" where
  "lessContainer ci cj =
     (if cState ci \<noteq> cState cj then cState ci = ''running''
      else stringLess (firstName (cNames ci)) (firstName (cNames cj)))"

text \<open>The body of the loop over the sorted containers (main.go, lines 137 to 155).\<close>

definition summaryOf :: "Env \<Rightarrow> Container \<Rightarrow> ContainerSummary" where
  "summaryOf env ctn =
     \<lparr>ID = cID ctn, Name = firstName (cNames ctn), Image = cImage ctn, State = cState ctn,
      Status = cStatus ctn, Ports = formatPorts (MapLower env) (cPorts ctn)\<rparr>"

fun fillRows :: "Env \<Rightarrow> App \<Rightarrow> nat \<Rightarrow> Container list \<Rightarrow> App" where
  "fillRows env a r [] = a"
| "fillRows env a r (ctn # rest) =
     (let row = r + 1;
          summary = summaryOf env ctn;
          a1 = a\<lparr>containers := containers a @ [summary]\<rparr>;
          t1 = SetCell (table a1) row 0 (cell (Name summary));
          t2 = SetCell t1 row 1 (cell (cImage ctn));
          t3 = SetCell t2 row 2 (cell (State summary));
          t4 = SetCell t3 row 3 (cell (Status summary));
          t5 = SetCell t4 row 4 (cell (Ports summary))
      in fillRows env (a1\<lparr>table := t5\<rparr>) (r + 1) rest)"

text \<open>
  \<open>refresh\<close> (main.go, line 116). \<open>rebuild\<close> is its middle part (lines 124 to 156), from
  the sorting to the status line. The result of \<open>refresh\<close> is \<open>None\<close> when the function
  panics; otherwise it is the returned error (\<open>None\<close> for \<open>nil\<close>) and the application after
  the call.
\<close>

definition rebuild :: "Env \<Rightarrow> App \<Rightarrow> Container list \<Rightarrow> App" where
  "rebuild env a listed =
     (let sorted = SliceStable listed lessContainer;
          a1 = a\<lparr>containers := []\<rparr>;
          a2 = a1\<lparr>table := setHeaders (Clear (table a1)) 0 headers\<rparr>;
          a3 = fillRows env a2 0 sorted
      in setStatus env a3
           (''[green]Refreshed. '' @ fmt_d (int (length (containers a3))) @ '' containers.''))"

definition refresh :: "Env \<Rightarrow> App \<Rightarrow> (string option \<times> App) option" where
  "refresh env a =
     (let (res, a1) = clientList env a in
      case res of
        Err e \<Rightarrow> Some (Some e, a1)
      | Ok listed \<Rightarrow>
          (let a2 = rebuild env a1 listed
           in if 0 < length (containers a2)
              then (case showForRow env (a2\<lparr>table := Select (table a2) 1 0\<rparr>) 1 of
                      None \<Rightarrow> None
                    | Some a3 \<Rightarrow> Some (None, a3))
              else Some (None, a2\<lparr>details := ''No containers found.'', logs := ''''\<rparr>)))"

text \<open>
  The input handler installed by \<open>setupUI\<close> (main.go, lines 82 to 94) for a typed character:
  \<open>q\<close> stops the application, \<open>r\<close> refreshes and reports an error of the refresh in the
  status line; the flag in the result says whether the event is passed on.
\<close>

definition inputCapture :: "Env \<Rightarrow> App \<Rightarrow> char \<Rightarrow> (bool \<times> App) option" where
  "inputCapture env a rune =
     (if rune = CHR ''q'' \<or> rune = CHR ''Q'' then Some (False, a\<lparr>stopped := True\<rparr>)
      else if rune = CHR ''r'' \<or> rune = CHR ''R''
      then (case refresh env a of
              None \<Rightarrow> None
            | Some (Some e, a1) \<Rightarrow> Some (False, setStatus env a1 (''[red]Refresh error: '' @ e))
            | Some (None, a1) \<Rightarrow> Some (False, a1))
      else Some (True, a))"

section \<open>Example values\<close>

text \<open>
  A summary, an application holding that one summary, and an environment in which the daemon,
  the parser and the clock give fixed answers; they serve as concrete inputs.
\<close>

definition exampleSummary :: ContainerSummary where
  "exampleSummary =
     \<lparr>ID = ''4f2a'', Name = ''web'', Image = ''nginx'', State = ''running'',
      Status = ''Up 2 hours'', Ports = ''0.0.0.0:8080->80/tcp''\<rparr>"

definition exampleApp :: App where
  "exampleApp =
     \<lparr>table = \<lparr>cells = (\<lambda>rc. None), selectedRow = 0, selectedColumn = 0\<rparr>,
      details = ''old details'', logs = ''old logs'', statusBar = ''old status'',
      containers = [exampleSummary], requests = [], stopped = False, clockReads = 0\<rparr>"

definition exampleEnv ::
  "Container list result \<Rightarrow> ContainerJSON result \<Rightarrow> string result result \<Rightarrow> int result \<Rightarrow> int \<Rightarrow> Env" where
  "exampleEnv listed inspected logged parsed now =
     \<lparr>ContainerList = (\<lambda>h. listed), ContainerInspect = (\<lambda>h i. inspected),
      ContainerLogs = (\<lambda>h i t. logged), Now = (\<lambda>n. now),
      FormatClock = (\<lambda>t. ''15:04:05 ''), FormatRFC1123 = (\<lambda>t. ''Mon, 02 Jan 2006 15:04:05 MST''),
      Parse = (\<lambda>s. parsed), MapLower = (\<lambda>s. s)\<rparr>"

definition exampleContainer :: "string \<Rightarrow> string \<Rightarrow> string \<Rightarrow> Container" where
  "exampleContainer i n st =
     \<lparr>cID = i, cNames = [n], cImage = ''busybox'', cState = st, cStatus = ''-'', cPorts = []\<rparr>"

section \<open>Properties of trimming\<close>

lemma IsSpace_RuneError: "\<not> IsSpace RuneError"
  by (simp add: IsSpace_def RuneError_def)

lemma first_cases:
  "0xF0 \<le> first b \<or> first b AND 7 = 2 \<or> first b AND 7 = 3 \<or> first b AND 7 = 4"
  by (simp add: first_def)

lemma DecodeRuneInString_take:
  assumes "1 \<le> k"
  shows "fst (DecodeRuneInString (take k u)) = fst (DecodeRuneInString u)
       \<or> fst (DecodeRuneInString (take k u)) = RuneError"
proof (cases "u = []")
  case True
  then show ?thesis by simp
next
  case False
  with assms have hd0: "take k u ! 0 = u ! 0" and ne: "take k u \<noteq> []"
    by auto
  define x where "x = first (byte (u ! 0))"
  have fc: "0xF0 \<le> x \<or> x AND 7 = 2 \<or> x AND 7 = 3 \<or> x AND 7 = 4"
    unfolding x_def by (rule first_cases)
  consider (one) "0xF0 \<le> x" | (short) "x < 0xF0" "k < x AND 7"
    | (long) "x < 0xF0" "x AND 7 \<le> k" "x AND 7 = 2 \<or> x AND 7 = 3 \<or> x AND 7 = 4"
    using fc by fastforce
  then show ?thesis
  proof cases
    case one
    then show ?thesis
      using False ne hd0 by (simp add: DecodeRuneInString_def Let_def x_def [symmetric])
  next
    case short
    then have "length (take k u) < x AND 7"
      by simp
    then show ?thesis
      using short(1) ne hd0
      by (simp add: DecodeRuneInString_def [of "take k u"] Let_def x_def [symmetric]
          del: length_take)
  next
    case long
    then have "take k u ! 1 = u ! 1" "2 < x AND 7 \<Longrightarrow> take k u ! 2 = u ! 2"
      "3 < x AND 7 \<Longrightarrow> take k u ! 3 = u ! 3"
      by auto
    moreover have "(length (take k u) < x AND 7) = (length u < x AND 7)"
      using long by auto
    ultimately show ?thesis
      using False ne hd0 long
      by (auto simp add: DecodeRuneInString_def Let_def x_def [symmetric] simp del: length_take)
  qed
qed

lemma DecodeRuneInString_ascii:
  "byte c < 0x80 \<Longrightarrow> DecodeRuneInString (c # cs) = (byte c, 1)"
  by (simp add: DecodeRuneInString_def first_def)

lemma IsSpace_ascii: "c < 0x80 \<Longrightarrow> IsSpace c = asciiSpace c"
  by (auto simp: IsSpace_def asciiSpace_def)


lemma DecodeLastRuneInString_le: "snd (DecodeLastRuneInString v) \<le> length v"
  by (cases v) (auto simp: DecodeLastRuneInString_def Let_def split: prod.splits)

lemma DecodeLastRuneInString_whole:
  assumes "v \<noteq> []" and "DecodeLastRuneInString v = (r, length v)" and "r \<noteq> RuneError"
  shows "DecodeRuneInString v = (r, length v)"
proof (cases "byte (v ! (length v - 1)) < 0x80")
  case True
  with assms have "length v = 1" and "r = byte (v ! (length v - 1))"
    by (auto simp: DecodeLastRuneInString_def Let_def)
  then obtain c where "v = [c]"
    by (cases v) auto
  with True \<open>r = byte (v ! (length v - 1))\<close> show ?thesis
    by (simp add: DecodeRuneInString_ascii)
next
  case False
  obtain r' wid where dec: "DecodeRuneInString (drop (lastRuneStart v) v) = (r', wid)"
    by (cases "DecodeRuneInString (drop (lastRuneStart v) v)")
  with False assms have "lastRuneStart v + wid = length v" and "r' = r" and "wid = length v"
    by (auto simp: DecodeLastRuneInString_def Let_def split: if_splits)
  then have "lastRuneStart v = 0"
    by simp
  with dec \<open>r' = r\<close> \<open>wid = length v\<close> show ?thesis
    by simp
qed

lemma lastIndexFunc_range:
  "- 1 \<le> lastIndexFunc v f t \<and> lastIndexFunc v f t < int (length v)"
proof (induction v f t rule: lastIndexFunc.induct)
  case (1 s f truth)
  show ?case
  proof (cases "0 < length s")
    case False
    then show ?thesis
      by (subst lastIndexFunc.simps, simp)+
  next
    case True
    obtain r wid where dec: "DecodeLastRuneInString s = (r, wid)"
      by (cases "DecodeLastRuneInString s")
    have wid: "1 \<le> wid" "wid \<le> length s"
      using DecodeLastRuneInString_size [of s] DecodeLastRuneInString_le [of s] True dec by auto
    show ?thesis
    proof (cases "f r = truth")
      case eq: True
      have "lastIndexFunc s f truth = int (length s) - int wid"
        using True dec eq by (subst lastIndexFunc.simps) simp
      with wid show ?thesis by simp
    next
      case ne: False
      have eq: "lastIndexFunc s f truth
                = lastIndexFunc (take (nat (int (length s) - int wid)) s) f truth"
        using True dec ne by (subst lastIndexFunc.simps) simp
      have "- 1 \<le> lastIndexFunc (take (nat (int (length s) - int wid)) s) f truth
          \<and> lastIndexFunc (take (nat (int (length s) - int wid)) s) f truth
            < int (length (take (nat (int (length s) - int wid)) s))"
        using "1.IH" [OF True dec [symmetric] refl refl ne] .
      with eq wid show ?thesis by simp
    qed
  qed
qed

lemma lastIndexFunc_none_aux:
  "f = IsSpace \<Longrightarrow> \<not> t \<Longrightarrow> lastIndexFunc v f t = - 1
   \<Longrightarrow> v = [] \<or> IsSpace (fst (DecodeRuneInString v))"
proof (induction v f t rule: lastIndexFunc.induct)
  case (1 s f truth)
  show ?case
  proof (cases "0 < length s")
    case False
    then show ?thesis by simp
  next
    case True
    obtain r wid where dec: "DecodeLastRuneInString s = (r, wid)"
      by (cases "DecodeLastRuneInString s")
    have wid: "1 \<le> wid" "wid \<le> length s"
      using DecodeLastRuneInString_size [of s] DecodeLastRuneInString_le [of s] True dec by auto
    define k where "k = nat (int (length s) - int wid)"
    have sp: "IsSpace r"
    proof (rule ccontr)
      assume "\<not> IsSpace r"
      then have "lastIndexFunc s f truth = int (length s) - int wid"
        using True dec "1.prems"(1,2) by (subst lastIndexFunc.simps) simp
      with wid "1.prems" show False by simp
    qed
    then have ne: "f r \<noteq> truth"
      using "1.prems" by simp
    have rec: "lastIndexFunc (take k s) f truth = - 1"
      using True dec "1.prems"(3) ne unfolding k_def
      by (subst (asm) lastIndexFunc.simps) simp
    have IH: "take k s = [] \<or> IsSpace (fst (DecodeRuneInString (take k s)))"
      using "1.IH" [OF True dec [symmetric] refl refl ne "1.prems"(1,2)] rec
      by (simp add: k_def)
    show ?thesis
    proof (cases "k = 0")
      case True
      then have "wid = length s"
        using wid by (simp add: k_def)
      with dec sp IsSpace_RuneError True \<open>0 < length s\<close>
      have "DecodeRuneInString s = (r, length s)"
        by (intro DecodeLastRuneInString_whole) auto
      with sp show ?thesis by simp
    next
      case False
      then have "1 \<le> k" by simp
      moreover have "take k s \<noteq> []"
        using False True by auto
      ultimately show ?thesis
        using IH DecodeRuneInString_take [of k s] IsSpace_RuneError by auto
    qed
  qed
qed

lemma lastIndexFunc_none:
  "lastIndexFunc v IsSpace False = - 1 \<Longrightarrow> v = [] \<or> IsSpace (fst (DecodeRuneInString v))"
  by (rule lastIndexFunc_none_aux) simp_all

definition startsNonSpace :: "string \<Rightarrow> bool" where
  "startsNonSpace v = (v \<noteq> [] \<and> \<not> IsSpace (fst (DecodeRuneInString v)))"

lemma startsNonSpace_take: "startsNonSpace v \<Longrightarrow> 1 \<le> k \<Longrightarrow> startsNonSpace (take k v)"
  using DecodeRuneInString_take [of k v] IsSpace_RuneError
  by (auto simp: startsNonSpace_def)

lemma TrimRightFunc_startsNonSpace:
  assumes "startsNonSpace v"
  shows "startsNonSpace (TrimRightFunc v IsSpace)"
proof -
  have "lastIndexFunc v IsSpace False \<noteq> - 1"
    using assms lastIndexFunc_none [of v] by (auto simp: startsNonSpace_def)
  with lastIndexFunc_range [of v IsSpace False] have "0 \<le> lastIndexFunc v IsSpace False"
    by simp
  then have "\<exists>k. 1 \<le> k \<and> TrimRightFunc v IsSpace = take k v"
  proof (cases "0x80 \<le> byte (v ! nat (lastIndexFunc v IsSpace False))")
    case True
    with \<open>0 \<le> lastIndexFunc v IsSpace False\<close> have
      "TrimRightFunc v IsSpace = take (nat (lastIndexFunc v IsSpace False
          + int (snd (DecodeRuneInString (drop (nat (lastIndexFunc v IsSpace False)) v))))) v"
      by (simp add: TrimRightFunc_def Let_def)
    moreover have "drop (nat (lastIndexFunc v IsSpace False)) v \<noteq> []"
      using lastIndexFunc_range [of v IsSpace False] \<open>0 \<le> lastIndexFunc v IsSpace False\<close>
      by simp
    then have "1 \<le> snd (DecodeRuneInString (drop (nat (lastIndexFunc v IsSpace False)) v))"
      by (rule DecodeRuneInString_size)
    then have "1 \<le> nat (lastIndexFunc v IsSpace False
          + int (snd (DecodeRuneInString (drop (nat (lastIndexFunc v IsSpace False)) v))))"
      using \<open>0 \<le> lastIndexFunc v IsSpace False\<close> by linarith
    ultimately show ?thesis by blast
  next
    case False
    with \<open>0 \<le> lastIndexFunc v IsSpace False\<close> have
      "TrimRightFunc v IsSpace = take (nat (lastIndexFunc v IsSpace False + 1)) v"
      by (simp add: TrimRightFunc_def Let_def)
    moreover have "1 \<le> nat (lastIndexFunc v IsSpace False + 1)"
      using \<open>0 \<le> lastIndexFunc v IsSpace False\<close> by linarith
    ultimately show ?thesis by blast
  qed
  with assms show ?thesis
    by (auto simp add: startsNonSpace_take)
qed


lemma indexFunc_found:
  "indexFunc s f t i = j \<Longrightarrow> j \<noteq> - 1
   \<Longrightarrow> int i \<le> j \<and> j < int (length s) \<and> f (fst (DecodeRuneInString (drop (nat j) s))) = t"
proof (induction s f t i rule: indexFunc.induct)
  case (1 s f truth i)
  show ?case
  proof (cases "i < length s")
    case False
    with "1.prems" show ?thesis
      by (subst (asm) indexFunc.simps) simp
  next
    case True
    obtain r wid where dec: "DecodeRuneInString (drop i s) = (r, wid)"
      by (cases "DecodeRuneInString (drop i s)")
    show ?thesis
    proof (cases "f r = truth")
      case eq: True
      then have "indexFunc s f truth i = int i"
        using True dec by (subst indexFunc.simps) simp
      with "1.prems" True dec eq show ?thesis by auto
    next
      case ne: False
      then have "indexFunc s f truth i = indexFunc s f truth (i + wid)"
        using True dec by (subst indexFunc.simps) simp
      with "1.IH" [OF True dec [symmetric] refl ne] "1.prems" show ?thesis
        by auto
    qed
  qed
qed

lemma TrimLeftFunc_startsNonSpace:
  "TrimLeftFunc s IsSpace \<noteq> [] \<Longrightarrow> startsNonSpace (TrimLeftFunc s IsSpace)"
  using indexFunc_found [of s IsSpace False 0 "indexFunc s IsSpace False 0"]
  by (auto simp: TrimLeftFunc_def Let_def startsNonSpace_def split: if_splits)

lemma TrimLeftFunc_id: "startsNonSpace v \<Longrightarrow> TrimLeftFunc v IsSpace = v"
proof -
  assume a: "startsNonSpace v"
  obtain r wid where dec: "DecodeRuneInString (drop 0 v) = (r, wid)"
    by (cases "DecodeRuneInString (drop 0 v)")
  with a have "indexFunc v IsSpace False 0 = 0"
    by (subst indexFunc.simps) (auto simp: startsNonSpace_def)
  then show ?thesis
    by (simp add: TrimLeftFunc_def)
qed

lemma TrimRightFunc_Nil: "TrimRightFunc [] f = []"
  by (simp add: TrimRightFunc_def)

lemma startsNonSpace_ascii:
  "byte c < 0x80 \<Longrightarrow> startsNonSpace (c # cs) = (\<not> asciiSpace (byte c))"
  by (simp add: startsNonSpace_def DecodeRuneInString_ascii IsSpace_ascii)

lemma trimSpaceStop_startsNonSpace:
  "startsNonSpace v \<Longrightarrow> startsNonSpace (trimSpaceStop v)"
proof (induction v rule: trimSpaceStop.induct)
  case (1 v)
  from "1.prems" have ne: "0 < length v"
    by (simp add: startsNonSpace_def)
  show ?case
  proof (cases "0x80 \<le> byte (last v)")
    case True
    with ne have "trimSpaceStop v = TrimRightFunc v IsSpace"
      by (subst trimSpaceStop.simps) simp
    with "1.prems" show ?thesis
      by (simp add: TrimRightFunc_startsNonSpace)
  next
    case False
    show ?thesis
    proof (cases "asciiSpace (byte (last v))")
      case nsp: False
      with False ne have "trimSpaceStop v = v"
        by (subst trimSpaceStop.simps) simp
      with "1.prems" show ?thesis by simp
    next
      case sp: True
      with False ne have eq: "trimSpaceStop v = trimSpaceStop (butlast v)"
        by (subst trimSpaceStop.simps) simp
      have "2 \<le> length v"
      proof (rule ccontr)
        assume "\<not> 2 \<le> length v"
        with ne have "length v = 1"
          by (cases v) (auto simp: Suc_le_eq)
        then obtain c where "v = [c]"
          by (cases v) auto
        with False sp "1.prems" show False
          by (simp add: startsNonSpace_ascii)
      qed
      then have "startsNonSpace (butlast v)"
        using "1.prems" startsNonSpace_take [of v "length v - 1"]
        by (simp add: butlast_conv_take)
      with "1.IH" [OF ne refl False] sp eq show ?thesis
        by simp
    qed
  qed
qed

lemma trimSpaceStop_Nil: "trimSpaceStop [] = []"
  by (subst trimSpaceStop.simps) simp

lemma trimSpaceStart_startsNonSpace:
  "trimSpaceStart s \<noteq> [] \<Longrightarrow> startsNonSpace (trimSpaceStart s)"
proof (induction s)
  case Nil
  then show ?case by (simp add: trimSpaceStop_Nil)
next
  case (Cons c cs)
  show ?case
  proof (cases "0x80 \<le> byte c")
    case True
    then have eq: "trimSpaceStart (c # cs) = TrimRightFunc (TrimLeftFunc (c # cs) IsSpace) IsSpace"
      by (simp add: TrimFunc_def)
    with Cons.prems have "TrimLeftFunc (c # cs) IsSpace \<noteq> []"
      by (auto simp: TrimRightFunc_Nil)
    then show ?thesis
      unfolding eq by (intro TrimRightFunc_startsNonSpace TrimLeftFunc_startsNonSpace)
  next
    case False
    then show ?thesis
      using Cons trimSpaceStop_startsNonSpace [of "c # cs"]
      by (auto simp: startsNonSpace_ascii)
  qed
qed

lemma trimSpaceStart_of_startsNonSpace:
  "startsNonSpace v \<Longrightarrow> startsNonSpace (trimSpaceStart v)"
proof (cases v)
  case Nil
  assume "startsNonSpace v"
  with Nil show ?thesis by (simp add: startsNonSpace_def)
next
  case (Cons c cs)
  assume a: "startsNonSpace v"
  show ?thesis
  proof (cases "0x80 \<le> byte c")
    case True
    then have "trimSpaceStart v = TrimRightFunc (TrimLeftFunc v IsSpace) IsSpace"
      using Cons by (simp add: TrimFunc_def)
    with a show ?thesis
      by (simp add: TrimLeftFunc_id TrimRightFunc_startsNonSpace)
  next
    case False
    with a Cons show ?thesis
      using trimSpaceStop_startsNonSpace [of v] by (auto simp: startsNonSpace_ascii)
  qed
qed

lemma TrimSpace_Nil: "TrimSpace [] = []"
  by (simp add: TrimSpace_def trimSpaceStop_Nil)

lemma TrimSpace_TrimSpace_empty: "(TrimSpace (TrimSpace s) = []) = (TrimSpace s = [])"
proof
  assume "TrimSpace s = []"
  then show "TrimSpace (TrimSpace s) = []"
    by (simp add: TrimSpace_Nil)
next
  assume e: "TrimSpace (TrimSpace s) = []"
  show "TrimSpace s = []"
  proof (rule ccontr)
    assume "TrimSpace s \<noteq> []"
    then have "startsNonSpace (TrimSpace s)"
      by (simp add: TrimSpace_def trimSpaceStart_startsNonSpace)
    then have "startsNonSpace (TrimSpace (TrimSpace s))"
      unfolding TrimSpace_def [of "TrimSpace s"] by (rule trimSpaceStart_of_startsNonSpace)
    with e show False
      by (simp add: startsNonSpace_def)
  qed
qed

section \<open>Properties of port formatting\<close>

lemma formatPortsStep_spec:
  "formatPortsStep mapLower out p = out @ [spec_binding mapLower p]"
  by (simp add: formatPortsStep_def spec_binding_def nz_def word_greater_zero_iff)

lemma foldl_formatPortsStep:
  "foldl (formatPortsStep mapLower) out ps = out @ map (spec_binding mapLower) ps"
  by (induction ps arbitrary: out) (simp_all add: formatPortsStep_spec)

lemma Join_Cons:
  "Join (x # xs) sep = x @ concat (map (\<lambda>y. sep @ y) xs)"
  by (induction xs arbitrary: x) simp_all

lemma fmtNat_small: "n < 10 \<Longrightarrow> fmtNat n = [digit n]"
  by (simp add: fmtNat.simps)

lemma fmtNat_big: "10 \<le> n \<Longrightarrow> fmtNat n = fmtNat (n div 10) @ [digit (n mod 10)]"
  by (subst fmtNat.simps) simp

lemmas fmt_eval = fmt_d_def fmtNat_small fmtNat_big digit_def char_of_def bit_0

lemma fmt_d_80: "fmt_d 80 = ''80''"
  by (simp add: fmt_eval)

lemma fmt_d_8080: "fmt_d 8080 = ''8080''"
  by (simp add: fmt_eval)

lemma fmt_d_443: "fmt_d 443 = ''443''"
  by (simp add: fmt_eval)

lemma ToLower_tcp: "ToLower mapLower ''tcp'' = ''tcp''"
  by (simp add: ToLower_def byte_def)

lemma ToLower_TCP: "ToLower mapLower ''TCP'' = ''tcp''"
  by (simp add: ToLower_def byte_def lowerByte_def char_of_def bit_0)

text \<open>
  Claim C6. An empty port list is formatted as \<open>-\<close>; a non-empty list is formatted as the
  renderings of its bindings, in input order, each but the first preceded by a comma and a
  space; a binding renders as \<open>spec_binding\<close> says. The published binding 8080 to 80 over
  \<open>tcp\<close> with no address gives \<open>0.0.0.0:8080->80/tcp\<close>, and the unpublished port 443 of
  type \<open>TCP\<close> gives \<open>443/tcp\<close>.
\<close>

theorem formatPorts_spec:
  "formatPorts mapLower [] = ''-'' \<and>
   formatPorts mapLower (p # ps) =
     spec_binding mapLower p @ concat (map (\<lambda>q. '', '' @ spec_binding mapLower q) ps) \<and>
   formatPorts mapLower [\<lparr>IP = '''', PrivatePort = 80, PublicPort = 8080, Type = ''tcp''\<rparr>]
     = ''0.0.0.0:8080->80/tcp'' \<and>
   formatPorts mapLower [\<lparr>IP = '''', PrivatePort = 443, PublicPort = 0, Type = ''TCP''\<rparr>]
     = ''443/tcp''"
proof -
  have "formatPorts mapLower [] = ''-''"
    by (simp add: formatPorts_def)
  moreover have "formatPorts mapLower (p # ps) =
     spec_binding mapLower p @ concat (map (\<lambda>q. '', '' @ spec_binding mapLower q) ps)"
    by (simp add: formatPorts_def foldl_formatPortsStep formatPortsStep_spec Join_Cons comp_def)
  moreover have
    "formatPorts mapLower [\<lparr>IP = '''', PrivatePort = 80, PublicPort = 8080, Type = ''tcp''\<rparr>]
     = ''0.0.0.0:8080->80/tcp''"
    by (simp add: formatPorts_def formatPortsStep_def nz_def fmt_d_80 fmt_d_8080 ToLower_tcp)
  moreover have
    "formatPorts mapLower [\<lparr>IP = '''', PrivatePort = 443, PublicPort = 0, Type = ''TCP''\<rparr>]
     = ''443/tcp''"
    by (simp add: formatPorts_def formatPortsStep_def fmt_d_443 ToLower_TCP)
  ultimately show ?thesis by blast
qed

section \<open>Properties of the stable sort\<close>

text \<open>The sort only exchanges elements: the length of the slice stays.\<close>

lemma length_swap: "length (swap data i j) = length data"
  by (simp add: swap_def)

lemma length_insertionInner: "length (insertionInner lessf data a j) = length data"
  by (induction lessf data a j rule: insertionInner.induct)
     (subst insertionInner.simps, simp add: length_swap)

lemma length_insertionOuter: "length (insertionOuter lessf data a b i) = length data"
  by (induction lessf data a b i rule: insertionOuter.induct)
     (subst insertionOuter.simps, simp add: length_insertionInner)

lemma length_insertionSort: "length (insertionSort lessf data a b) = length data"
  by (simp add: insertionSort_def length_insertionOuter)

lemma length_swapRange: "length (swapRange data a b n i) = length data"
  by (induction data a b n i rule: swapRange.induct)
     (subst swapRange.simps, simp add: length_swap)

lemma length_rotateLoop: "length (rotateLoop data m i j) = length data"
  by (induction data m i j rule: rotateLoop.induct)
     (subst rotateLoop.simps, simp add: length_swapRange)

lemma length_rotate: "length (rotate data a m b) = length data"
  by (simp add: rotate_def length_rotateLoop)

lemma length_shiftUp: "length (shiftUp data k i) = length data"
  by (induction data k i rule: shiftUp.induct)
     (subst shiftUp.simps, simp add: length_swap)

lemma length_shiftDown: "length (shiftDown data k i) = length data"
  by (induction data k i rule: shiftDown.induct)
     (subst shiftDown.simps, simp add: length_swap)

lemma length_symSplit: "length (snd (snd (symSplit lessf data a m b))) = length data"
  by (simp add: symSplit_def Let_def length_rotate)

lemma length_symMerge: "length (symMerge lessf data a m b) = length data"
proof (induction lessf data a m b rule: symMerge.induct)
  case (1 lessf data a m b)
  obtain start e data1 where sp: "symSplit lessf data a m b = (start, e, data1)"
    by (cases "symSplit lessf data a m b") auto
  then have l1: "length data1 = length data"
    using length_symSplit [of lessf data a m b] by simp
  define mid where "mid = (a + b) div 2"
  define data2 where
    "data2 = (if a < start \<and> start < mid then symMerge lessf data1 a start mid else data1)"
  show ?case
  proof (cases "m - a = 1 \<or> b - m = 1")
    case True
    then show ?thesis
      by (subst symMerge.simps) (auto simp: length_shiftUp length_shiftDown)
  next
    case False
    then have na: "m - a \<noteq> 1" and nb: "b - m \<noteq> 1"
      by auto
    have l2: "length data2 = length data"
      using "1.IH"(1) [OF na nb mid_def sp [symmetric] refl refl] l1
      by (auto simp: data2_def)
    have eq: "symMerge lessf data a m b
              = (if mid < e \<and> e < b then symMerge lessf data2 mid e b else data2)"
      using na nb sp
      by (subst symMerge.simps) (simp add: Let_def mid_def data2_def)
    show ?thesis
    proof (cases "mid < e \<and> e < b")
      case True
      then show ?thesis
        using "1.IH"(2) [OF na nb mid_def sp [symmetric] refl refl data2_def True] l2 eq
        by simp
    next
      case False
      with eq l2 show ?thesis by simp
    qed
  qed
qed

lemma length_insertionBlocks:
  "length (fst (insertionBlocks lessf data n blockSize a)) = length data"
  by (induction lessf data n blockSize a rule: insertionBlocks.induct)
     (subst insertionBlocks.simps, simp add: length_insertionSort)

lemma length_mergeBlocks:
  "length (fst (mergeBlocks lessf data n blockSize a)) = length data"
  by (induction lessf data n blockSize a rule: mergeBlocks.induct)
     (subst mergeBlocks.simps, simp add: length_symMerge)

lemma length_mergePasses: "length (mergePasses lessf data n blockSize) = length data"
proof (induction lessf data n blockSize rule: mergePasses.induct)
  case (1 lessf data n blockSize)
  show ?case
  proof (cases "0 < blockSize \<and> blockSize < n")
    case False
    then show ?thesis
      by (subst mergePasses.simps) auto
  next
    case True
    obtain data1 a where mb: "mergeBlocks lessf data n blockSize 0 = (data1, a)"
      by (cases "mergeBlocks lessf data n blockSize 0")
    then have l1: "length data1 = length data"
      using length_mergeBlocks [of lessf data n blockSize 0] by simp
    define data2 where
      "data2 = (if a + blockSize < n then symMerge lessf data1 a (a + blockSize) n else data1)"
    have l2: "length data2 = length data"
      by (simp add: data2_def l1 length_symMerge)
    have "mergePasses lessf data n blockSize = mergePasses lessf data2 n (2 * blockSize)"
      using True mb by (subst mergePasses.simps) (simp add: Let_def data2_def)
    moreover have "length (mergePasses lessf data2 n (2 * blockSize)) = length data2"
      using "1.IH" [OF True mb [symmetric] refl refl] by (simp add: data2_def)
    ultimately show ?thesis
      using l2 by simp
  qed
qed

lemma length_SliceStable: "length (SliceStable x lessf) = length x"
proof -
  obtain data1 a where ib: "insertionBlocks lessf x (length x) 20 0 = (data1, a)"
    by (cases "insertionBlocks lessf x (length x) 20 0")
  then have "length data1 = length x"
    using length_insertionBlocks [of lessf x "length x" 20 0] by simp
  with ib show ?thesis
    by (simp add: SliceStable_def stable_def Let_def length_mergePasses length_insertionSort)
qed

lemma SliceStable_Nil: "SliceStable [] lessf = []"
  using length_SliceStable [of "[]" lessf] by simp

section \<open>Properties of the float64 arithmetic and of the durations\<close>

subsection \<open>Powers of two\<close>

lemma pow2_powi: "pow2 k = 2 powi k"
  by (simp add: pow2_def power_int_def field_simps)

lemma pow2_pos: "0 < pow2 k"
  by (simp add: pow2_def)

lemma pow2_add: "pow2 (a + b) = pow2 a * pow2 b"
  by (simp add: pow2_powi power_int_add)

lemma pow2_diff: "pow2 (a - b) = pow2 a / pow2 b"
  by (simp add: pow2_powi power_int_diff)

lemma pow2_mono: "a \<le> b \<Longrightarrow> pow2 a \<le> pow2 b"
  by (simp add: pow2_powi power_int_increasing)

lemma pow2_strict_mono: "a < b \<Longrightarrow> pow2 a < pow2 b"
  by (simp add: pow2_powi power_int_strict_increasing)

lemma pow2_less_cancel: "pow2 a < pow2 b \<Longrightarrow> a < b"
  using pow2_mono [of b a] by (cases "a < b") auto

lemma pow2_nat: "pow2 (int n) = 2 ^ n"
  by (simp add: pow2_def)

lemma pow2_0: "pow2 0 = 1"
  by (simp add: pow2_def)

lemma pow2_Suc: "pow2 (k + 1) = 2 * pow2 k"
  by (simp add: pow2_powi power_int_add_1')

subsection \<open>The binary exponent\<close>

lemma ilog2_bounds:
  assumes "x \<noteq> 0"
  shows "pow2 (ilog2 x) \<le> \<bar>x\<bar> \<and> \<bar>x\<bar> < pow2 (ilog2 x + 1)"
proof -
  obtain p q where pq: "quotient_of \<bar>x\<bar> = (p, q)"
    by (cases "quotient_of \<bar>x\<bar>")
  then have q: "0 < q" and x: "\<bar>x\<bar> = of_int p / of_int q"
    by (auto dest: quotient_of_denom_pos quotient_of_div)
  from assms have "0 < \<bar>x\<bar>" by simp
  with x q have p: "0 < p"
    by (simp add: zero_less_divide_iff)
  define bp where "bp = bitlen p"
  define bq where "bq = bitlen q"
  have bp: "2 ^ nat (bp - 1) \<le> p" "p < 2 ^ nat bp" and bq: "2 ^ nat (bq - 1) \<le> q" "q < 2 ^ nat bq"
    using bitlen_bounds [OF p] bitlen_bounds [OF q] by (simp_all add: bp_def bq_def)
  have bp1: "1 \<le> bp"
  proof (rule ccontr)
    assume "\<not> 1 \<le> bp"
    then have "nat bp = 0" by simp
    with bp(2) p show False by simp
  qed
  have bq1: "1 \<le> bq"
  proof (rule ccontr)
    assume "\<not> 1 \<le> bq"
    then have "nat bq = 0" by simp
    with bq(2) q show False by simp
  qed
  have pw: "\<And>k. 0 \<le> k \<Longrightarrow> pow2 k = of_int (2 ^ nat k)"
    by (simp add: pow2_def)
  have P: "pow2 (bp - 1) \<le> of_int p" "(of_int p :: rat) < pow2 bp"
    using bp bp1 by (simp_all only: pw of_int_le_iff of_int_less_iff)
  have Q: "pow2 (bq - 1) \<le> of_int q" "(of_int q :: rat) < pow2 bq"
    using bq bq1 by (simp_all only: pw of_int_le_iff of_int_less_iff)
  have up: "\<bar>x\<bar> < pow2 (bp - bq + 1)"
  proof -
    have "of_int p / of_int q < pow2 bp / pow2 (bq - 1)"
      using P Q p q pow2_pos [of "bq - 1"] by (intro frac_less) auto
    also have "\<dots> = pow2 (bp - bq + 1)"
      by (simp add: pow2_diff [symmetric] algebra_simps)
    finally show ?thesis by (simp add: x)
  qed
  have lo: "pow2 (bp - bq - 1) \<le> \<bar>x\<bar>"
  proof -
    have "pow2 (bp - 1) / pow2 bq \<le> of_int p / of_int q"
      using P Q p q pow2_pos [of "bp - 1"] by (intro frac_le) auto
    moreover have "pow2 (bp - 1) / pow2 bq = pow2 (bp - bq - 1)"
      by (simp add: pow2_diff [symmetric] algebra_simps)
    ultimately show ?thesis by (simp add: x)
  qed
  show ?thesis
    using up lo pq
    by (auto simp: ilog2_def Let_def bp_def [symmetric] bq_def [symmetric] not_le)
qed

lemma ilog2_unique:
  assumes "pow2 e \<le> \<bar>x\<bar>" and "\<bar>x\<bar> < pow2 (e + 1)"
  shows "ilog2 x = e"
proof -
  from assms pow2_pos [of e] have "x \<noteq> 0" by auto
  then have b: "pow2 (ilog2 x) \<le> \<bar>x\<bar>" "\<bar>x\<bar> < pow2 (ilog2 x + 1)"
    using ilog2_bounds by auto
  have "pow2 e < pow2 (ilog2 x + 1)" "pow2 (ilog2 x) < pow2 (e + 1)"
    using assms b by auto
  then have "e < ilog2 x + 1" "ilog2 x < e + 1"
    by (auto dest: pow2_less_cancel)
  then show ?thesis by simp
qed

subsection \<open>Rounding to the nearest integer, ties to even\<close>

lemma roundEven_of_int: "roundEven (of_int n) = n"
  by (simp add: roundEven_def)

lemma roundEven_error: "\<bar>of_int (roundEven m) - m\<bar> \<le> 1 / 2"
proof -
  have "of_int \<lfloor>m\<rfloor> \<le> m" "m < of_int \<lfloor>m\<rfloor> + 1"
    by linarith+
  then show ?thesis
    by (auto simp: roundEven_def Let_def abs_le_iff)
qed

lemma roundEven_ge: "of_int n \<le> m \<Longrightarrow> n \<le> roundEven m"
proof -
  assume "of_int n \<le> m"
  then have "n \<le> \<lfloor>m\<rfloor>" by (simp add: le_floor_iff)
  then show ?thesis
    by (auto simp: roundEven_def Let_def)
qed

lemma roundEven_le: "m \<le> of_int n \<Longrightarrow> roundEven m \<le> n"
proof (cases "m = of_int \<lfloor>m\<rfloor>")
  case True
  assume "m \<le> of_int n"
  with True have "\<lfloor>m\<rfloor> \<le> n"
    by (metis floor_mono floor_of_int)
  moreover from True have "roundEven m = \<lfloor>m\<rfloor>"
    by (metis roundEven_of_int)
  ultimately show ?thesis by simp
next
  case False
  assume le: "m \<le> of_int n"
  have "of_int \<lfloor>m\<rfloor> < m"
    using False of_int_floor_le [of m] by linarith
  with le have "(of_int \<lfloor>m\<rfloor> :: rat) < of_int n" by linarith
  then have "\<lfloor>m\<rfloor> < n" by simp
  then show ?thesis
    by (auto simp: roundEven_def Let_def)
qed

lemma roundEven_uminus: "roundEven (- m) = - roundEven m"
proof (cases "m = of_int \<lfloor>m\<rfloor>")
  case True
  then obtain n where "m = of_int n" ..
  then show ?thesis
    using roundEven_of_int [of "- n"] by (simp add: roundEven_of_int)
next
  case False
  have b: "of_int \<lfloor>m\<rfloor> \<le> m" "m < of_int \<lfloor>m\<rfloor> + 1"
    by linarith+
  have lt: "of_int \<lfloor>m\<rfloor> < m"
    using False of_int_floor_le [of m] by linarith
  have fl: "\<lfloor>- m\<rfloor> = - \<lfloor>m\<rfloor> - 1"
    using lt b by (intro floor_unique) auto
  show ?thesis
    using lt b by (auto simp: roundEven_def Let_def fl)
qed

subsection \<open>Rounding to float64\<close>

lemma normal_ilog2: "normal x \<Longrightarrow> - 1022 \<le> ilog2 x"
proof -
  assume n: "normal x"
  then have "x \<noteq> 0"
    using pow2_pos [of "- 1022"] by (auto simp: normal_def)
  then have "\<bar>x\<bar> < pow2 (ilog2 x + 1)"
    using ilog2_bounds by blast
  with n have "pow2 (- 1022) < pow2 (ilog2 x + 1)"
    by (simp add: normal_def)
  then have "- 1022 < ilog2 x + 1"
    by (rule pow2_less_cancel)
  then show ?thesis by simp
qed

lemma float64_grid:
  "normal x \<Longrightarrow>
   float64 x = of_int (roundEven (x / pow2 (ilog2 x - 52))) * pow2 (ilog2 x - 52)"
proof -
  assume n: "normal x"
  then have "x \<noteq> 0"
    using pow2_pos [of "- 1022"] by (auto simp: normal_def)
  moreover have "max (ilog2 x - 52) (- 1074) = ilog2 x - 52"
    using normal_ilog2 [OF n] by simp
  ultimately show ?thesis
    by (simp add: float64_def Let_def)
qed

lemma float64_0: "float64 0 = 0"
  by (simp add: float64_def)

lemma float64_error:
  assumes "normal x"
  shows "\<bar>float64 x - x\<bar> \<le> pow2 (ilog2 x - 53)"
proof -
  define q where "q = pow2 (ilog2 x - 52)"
  have q: "0 < q" by (simp add: q_def pow2_pos)
  have "float64 x - x = (of_int (roundEven (x / q)) - x / q) * q"
    using q by (simp add: float64_grid [OF assms] q_def [symmetric] field_simps)
  then have "\<bar>float64 x - x\<bar> = \<bar>of_int (roundEven (x / q)) - x / q\<bar> * q"
    using q by (simp add: abs_mult)
  also have "\<dots> \<le> 1 / 2 * q"
    using roundEven_error [of "x / q"] q by (intro mult_right_mono) auto
  also have "\<dots> = pow2 (ilog2 x - 53)"
    using pow2_Suc [of "ilog2 x - 53"] by (simp add: q_def)
  finally show ?thesis .
qed

lemma float64_error_below:
  assumes "normal x" and "\<bar>x\<bar> < pow2 k"
  shows "\<bar>float64 x - x\<bar> \<le> pow2 (k - 54)"
proof -
  from assms(1) have "x \<noteq> 0"
    using pow2_pos [of "- 1022"] by (auto simp: normal_def)
  then have "pow2 (ilog2 x) \<le> \<bar>x\<bar>"
    using ilog2_bounds by blast
  with assms(2) have "pow2 (ilog2 x) < pow2 k" by simp
  then have "ilog2 x < k" by (rule pow2_less_cancel)
  then have "pow2 (ilog2 x - 53) \<le> pow2 (k - 54)"
    by (intro pow2_mono) simp
  with float64_error [OF assms(1)] show ?thesis by simp
qed

lemma ilog2_uminus: "ilog2 (- x) = ilog2 x"
  by (simp add: ilog2_def)

lemma float64_uminus: "float64 (- x) = - float64 x"
  by (simp add: float64_def Let_def ilog2_uminus roundEven_uminus)

lemma float64_nonneg: "0 \<le> x \<Longrightarrow> 0 \<le> float64 x"
proof -
  assume "0 \<le> x"
  then have "0 \<le> x / pow2 (max (ilog2 x - 52) (- 1074))"
    using pow2_pos [of "max (ilog2 x - 52) (- 1074)"] by simp
  then have "0 \<le> roundEven (x / pow2 (max (ilog2 x - 52) (- 1074)))"
    using roundEven_ge [of 0] by simp
  then show ?thesis
    using pow2_pos [of "max (ilog2 x - 52) (- 1074)"]
    by (simp add: float64_def Let_def)
qed

lemma pow2_neg_int: "k \<le> 0 \<Longrightarrow> of_int n / pow2 k = of_int (n * 2 ^ nat (- k))"
  by (simp add: pow2_def)

lemma ilog2_le: "x \<noteq> 0 \<Longrightarrow> \<bar>x\<bar> < pow2 k \<Longrightarrow> ilog2 x < k"
proof -
  assume "x \<noteq> 0" and "\<bar>x\<bar> < pow2 k"
  then have "pow2 (ilog2 x) < pow2 k"
    using ilog2_bounds [of x] by simp
  then show ?thesis by (rule pow2_less_cancel)
qed

lemma ilog2_ge: "pow2 k \<le> \<bar>x\<bar> \<Longrightarrow> k \<le> ilog2 x"
proof -
  assume a: "pow2 k \<le> \<bar>x\<bar>"
  then have "x \<noteq> 0" using pow2_pos [of k] by auto
  then have "\<bar>x\<bar> < pow2 (ilog2 x + 1)"
    using ilog2_bounds [of x] by simp
  with a have "pow2 k < pow2 (ilog2 x + 1)" by simp
  then have "k < ilog2 x + 1" by (rule pow2_less_cancel)
  then show ?thesis by simp
qed

lemma normal_ge_pow2: "- 1022 \<le> k \<Longrightarrow> pow2 k \<le> \<bar>x\<bar> \<Longrightarrow> normal x"
  using pow2_mono [of "- 1022" k] by (simp add: normal_def)

lemma pow2_53: "pow2 53 = of_int (2 ^ 53)"
  by (simp add: pow2_def)

lemma of_int_less_pow2_53: "n < 2 ^ 53 \<Longrightarrow> (of_int n :: rat) < pow2 53"
  by (simp only: pow2_53 of_int_less_iff)

lemma of_int_le_pow2_53: "n \<le> 2 ^ 53 \<Longrightarrow> (of_int n :: rat) \<le> pow2 53"
  by (simp only: pow2_53 of_int_le_iff)

lemma float64_exact:
  assumes "x / pow2 (max (ilog2 x - 52) (- 1074)) = of_int j"
  shows "float64 x = x"
proof (cases "x = 0")
  case True
  then show ?thesis by (simp add: float64_0)
next
  case False
  define q where "q = pow2 (max (ilog2 x - 52) (- 1074))"
  have q: "0 < q" by (simp add: q_def pow2_pos)
  have "float64 x = of_int (roundEven (x / q)) * q"
    using False by (simp add: float64_def Let_def q_def)
  also have "\<dots> = x / q * q"
    using assms by (simp add: q_def [symmetric] roundEven_of_int)
  also have "\<dots> = x"
    using q by simp
  finally show ?thesis .
qed

lemma float64_of_int:
  assumes "\<bar>n\<bar> < 2 ^ 53"
  shows "float64 (of_int n) = of_int n"
proof (cases "n = 0")
  case True
  then show ?thesis by (simp add: float64_0)
next
  case False
  have "\<bar>of_int n :: rat\<bar> = of_int \<bar>n\<bar>"
    by simp
  then have "\<bar>of_int n :: rat\<bar> < pow2 53"
    using of_int_less_pow2_53 [OF assms] by simp
  then have "ilog2 (of_int n) < 53"
    using False by (intro ilog2_le) auto
  moreover have "1 \<le> \<bar>n\<bar>"
    using False by simp
  then have "(of_int 1 :: rat) \<le> of_int \<bar>n\<bar>"
    by (simp only: of_int_le_iff)
  then have "pow2 0 \<le> \<bar>of_int n :: rat\<bar>"
    by (simp add: pow2_0)
  then have "0 \<le> ilog2 (of_int n)"
    by (rule ilog2_ge)
  ultimately have m: "max (ilog2 (of_int n) - 52) (- 1074) = ilog2 (of_int n) - 52"
    and le: "ilog2 (of_int n) - 52 \<le> 0"
    by auto
  show ?thesis
    by (rule float64_exact [of _ "n * 2 ^ nat (- (ilog2 (of_int n) - 52))"])
       (simp only: m pow2_neg_int [OF le])
qed

lemma float64_ge_int:
  assumes "0 < n" and "n \<le> 2 ^ 53" and "of_int n \<le> x"
  shows "of_int n \<le> float64 x"
proof -
  have "1 \<le> n" using assms(1) by simp
  then have "(of_int 1 :: rat) \<le> of_int n"
    by (simp only: of_int_le_iff)
  with assms(3) have xge1: "1 \<le> x" by simp
  then have x1: "pow2 0 \<le> \<bar>x\<bar>"
    by (simp add: pow2_0)
  then have nx: "normal x"
    by (intro normal_ge_pow2 [of 0]) auto
  have e0: "0 \<le> ilog2 x"
    using x1 by (rule ilog2_ge)
  define e where "e = ilog2 x"
  define q where "q = pow2 (e - 52)"
  have q: "0 < q" by (simp add: q_def pow2_pos)
  have fl: "float64 x = of_int (roundEven (x / q)) * q"
    using float64_grid [OF nx] by (simp add: q_def e_def)
  show ?thesis
  proof (cases "e \<le> 52")
    case True
    then have "of_int n / q = of_int (n * 2 ^ nat (52 - e))"
      using pow2_neg_int [of "e - 52" n] by (simp add: q_def)
    moreover have "of_int n / q \<le> x / q"
      using assms(3) q by (simp add: divide_right_mono)
    ultimately have "n * 2 ^ nat (52 - e) \<le> roundEven (x / q)"
      by (intro roundEven_ge) simp
    then have "(of_int (n * 2 ^ nat (52 - e)) :: rat) \<le> of_int (roundEven (x / q))"
      by (simp only: of_int_le_iff)
    then have A: "of_int (n * 2 ^ nat (52 - e)) * q \<le> of_int (roundEven (x / q)) * q"
      using q by (intro mult_right_mono) auto
    have "of_int n / q * q = of_int n"
      using q by simp
    then have B: "of_int (n * 2 ^ nat (52 - e)) * q = of_int n"
      by (simp only: \<open>of_int n / q = of_int (n * 2 ^ nat (52 - e))\<close>)
    from A show ?thesis
      unfolding fl B .
  next
    case False
    then have e53: "53 \<le> e" by simp
    have "x \<noteq> 0" using x1 pow2_pos [of 0] by auto
    then have "pow2 e \<le> \<bar>x\<bar>"
      using ilog2_bounds [of x] by (simp add: e_def)
    moreover have "0 < x"
      using xge1 by simp
    ultimately have "pow2 e \<le> x" by simp
    then have "pow2 e / q \<le> x / q"
      using q by (simp add: divide_right_mono)
    moreover have "pow2 e / q = pow2 (e - (e - 52))"
      unfolding q_def by (rule pow2_diff [symmetric])
    then have "pow2 e / q = of_int (2 ^ 52)"
      by (simp add: pow2_def)
    ultimately have "2 ^ 52 \<le> roundEven (x / q)"
      by (intro roundEven_ge) (simp only:)
    then have "(of_int (2 ^ 52) :: rat) \<le> of_int (roundEven (x / q))"
      by (simp only: of_int_le_iff)
    then have "of_int (2 ^ 52) * q \<le> of_int (roundEven (x / q)) * q"
      using q by (intro mult_right_mono) auto
    moreover have "of_int (2 ^ 52) * q = pow2 e"
      using \<open>pow2 e / q = of_int (2 ^ 52)\<close> q by (simp add: field_simps)
    moreover have "pow2 53 \<le> pow2 e"
      using e53 by (rule pow2_mono)
    moreover have "(of_int n :: rat) \<le> pow2 53"
      using assms(2) by (rule of_int_le_pow2_53)
    ultimately show ?thesis
      by (simp add: fl)
  qed
qed

lemma float64_le_int:
  assumes "0 \<le> x" and "x \<le> of_int n" and "n < 2 ^ 53"
  shows "float64 x \<le> of_int n"
proof (cases "x = 0")
  case True
  with assms show ?thesis by (simp add: float64_0)
next
  case False
  define j where "j = max (ilog2 x - 52) (- 1074)"
  define q where "q = pow2 j"
  have q: "0 < q" by (simp add: q_def pow2_pos)
  have "(of_int n :: rat) < pow2 53"
    using assms(3) by (rule of_int_less_pow2_53)
  with assms have "\<bar>x\<bar> < pow2 53" by simp
  then have "ilog2 x < 53"
    using False by (intro ilog2_le)
  then have j: "j \<le> 0" by (simp add: j_def)
  have fl: "float64 x = of_int (roundEven (x / q)) * q"
    using False by (simp add: float64_def Let_def q_def j_def)
  have nq: "of_int n / q = of_int (n * 2 ^ nat (- j))"
    using pow2_neg_int [OF j] by (simp add: q_def)
  moreover have "x / q \<le> of_int n / q"
    using assms(2) q by (simp add: divide_right_mono)
  ultimately have "roundEven (x / q) \<le> n * 2 ^ nat (- j)"
    by (intro roundEven_le) simp
  then have "(of_int (roundEven (x / q)) :: rat) \<le> of_int (n * 2 ^ nat (- j))"
    by (simp only: of_int_le_iff)
  then have A: "of_int (roundEven (x / q)) * q \<le> of_int (n * 2 ^ nat (- j)) * q"
    using q by (intro mult_right_mono) auto
  have "of_int n / q * q = of_int n"
    using q by simp
  then have B: "of_int (n * 2 ^ nat (- j)) * q = of_int n"
    by (simp only: nq)
  from A show ?thesis
    unfolding fl B .
qed

lemma Seconds_inUnits: "Seconds d = inUnits Second d"
  by (simp add: Seconds_def inUnits_def Second_def Let_def)

lemma Minutes_inUnits: "Minutes d = inUnits Minute d"
  by (simp add: Minutes_def inUnits_def Minute_def Second_def Let_def)

lemma Hours_inUnits: "Hours d = inUnits Hour d"
  by (simp add: Hours_def inUnits_def Hour_def Minute_def Second_def Let_def)

lemma quo_nonneg: "0 \<le> a \<Longrightarrow> 0 < b \<Longrightarrow> quo a b = a div b"
  by (cases "a = 0") (simp_all add: quo_def)

lemma rem_nonneg: "0 \<le> a \<Longrightarrow> 0 < b \<Longrightarrow> rem a b = a mod b"
  by (simp add: rem_def quo_nonneg minus_mult_div_eq_mod)

lemma quo_uminus: "quo (- a) b = - quo a b"
  by (simp add: quo_def)

lemma rem_uminus: "rem (- a) b = - rem a b"
  by (simp add: rem_def quo_uminus)

lemma inUnits_uminus: "inUnits U (- d) = - inUnits U d"
proof -
  have "inUnits U (- d)
      = float64 (- (float64 (of_int (quo d U)) + float64 (float64 (of_int (rem d U)) / of_int U)))"
    by (simp add: inUnits_def quo_uminus rem_uminus float64_uminus)
  then show ?thesis
    by (simp only: float64_uminus inUnits_def)
qed

lemma toInt_uminus: "toInt (- f) = - toInt f"
  by (cases "f = 0") (auto simp: toInt_def ceiling_def)

lemma toInt_floor: "of_int n \<le> f \<Longrightarrow> f < of_int n + 1 \<Longrightarrow> 0 \<le> n \<Longrightarrow> toInt f = n"
proof -
  assume a: "of_int n \<le> f" "f < of_int n + 1" "0 \<le> n"
  then have "\<lfloor>f\<rfloor> = n" by (intro floor_unique)
  moreover from a have "(0::rat) \<le> of_int n"
    by simp
  with a(1) have "0 \<le> f" by linarith
  ultimately show ?thesis by (simp add: toInt_def)
qed

lemma inUnits_unfold:
  assumes "0 \<le> d" and "0 < U" and "U < 2 ^ 53" and "d div U < 2 ^ 53"
  shows "inUnits U d = float64 (of_int (d div U) + float64 (of_int (d mod U) / of_int U))"
proof -
  have q: "quo d U = d div U" and r: "rem d U = d mod U"
    using assms(1,2) by (simp_all add: quo_nonneg rem_nonneg)
  have "0 \<le> d div U"
    using assms by (simp add: pos_imp_zdiv_nonneg_iff)
  then have "\<bar>d div U\<bar> < 2 ^ 53"
    using assms(4) by simp
  then have A: "float64 (of_int (d div U)) = of_int (d div U)"
    by (rule float64_of_int)
  have "0 \<le> d mod U"
    using assms(2) by (rule pos_mod_sign)
  moreover have "d mod U < U"
    using assms(2) by (rule pos_mod_bound)
  ultimately have "\<bar>d mod U\<bar> < 2 ^ 53"
    using assms(3) by linarith
  then have B: "float64 (of_int (d mod U)) = of_int (d mod U)"
    by (rule float64_of_int)
  show ?thesis
    unfolding inUnits_def q r A B ..
qed

lemma inUnits_bounds:
  assumes "0 \<le> d" and "0 < U" and "U < 2 ^ 53" and "d div U + 1 < 2 ^ 53"
  shows "of_int (d div U) \<le> inUnits U d \<and> inUnits U d \<le> of_int (d div U) + 1"
proof -
  define w where "w = d div U"
  define y :: rat where "y = of_int (d mod U) / of_int U"
  have w0: "0 \<le> w"
    using assms by (simp add: w_def pos_imp_zdiv_nonneg_iff)
  have m: "0 \<le> d mod U" "d mod U < U"
    using assms(2) by simp_all
  have U: "(0::rat) < of_int U"
    using assms(2) by simp
  have y0: "0 \<le> y"
    using m U by (simp add: y_def)
  have "d mod U \<le> U"
    using m(2) by (rule less_imp_le)
  then have y1: "y \<le> of_int 1"
    using U by (simp add: y_def)
  have f0: "0 \<le> float64 y"
    using y0 by (rule float64_nonneg)
  have f1: "float64 y \<le> of_int 1"
    using y0 y1 by (rule float64_le_int) simp
  have eq: "inUnits U d = float64 (of_int w + float64 y)"
    using assms by (simp add: inUnits_unfold w_def y_def)
  have "of_int w \<le> float64 (of_int w + float64 y)"
  proof (cases "w = 0")
    case True
    then show ?thesis using f0 by (simp add: float64_nonneg)
  next
    case False
    with w0 have "0 < w" by simp
    moreover have "w \<le> 2 ^ 53" using assms(4) by (simp add: w_def)
    moreover have "of_int w \<le> of_int w + float64 y" using f0 by simp
    ultimately show ?thesis by (rule float64_ge_int)
  qed
  moreover have "float64 (of_int w + float64 y) \<le> of_int (w + 1)"
  proof (rule float64_le_int)
    show "0 \<le> of_int w + float64 y"
      using w0 f0 by simp
    show "of_int w + float64 y \<le> of_int (w + 1)"
      using f1 by simp
    show "w + 1 < 2 ^ 53"
      using assms(4) by (simp add: w_def)
  qed
  ultimately show ?thesis
    by (simp add: eq w_def)
qed

lemma inUnits_exact:
  assumes "0 \<le> d" and "0 < U" and "U < 2 ^ 53" and "of_int (d div U + 1) \<le> pow2 k"
    and "0 \<le> k" and "k \<le> 52"
    and gap: "pow2 (k - 54) + pow2 (- 54) < 1 / of_int U"
  shows "of_int (d div U) \<le> inUnits U d \<and> inUnits U d < of_int (d div U) + 1"
proof -
  define w where "w = d div U"
  define y :: rat where "y = of_int (d mod U) / of_int U"
  have w0: "0 \<le> w"
    using assms by (simp add: w_def pos_imp_zdiv_nonneg_iff)
  have wk: "(of_int w :: rat) + 1 \<le> pow2 k"
    using assms(4) by (simp add: w_def)
  have "pow2 k \<le> pow2 52"
    using assms(6) by (rule pow2_mono)
  also have "pow2 52 = of_int (2 ^ 52)"
    by (simp add: pow2_def)
  finally have "(of_int (w + 1) :: rat) \<le> of_int (2 ^ 52)"
    using wk by simp
  then have w52: "w + 1 \<le> 2 ^ 52"
    by (simp only: of_int_le_iff)
  then have w53: "d div U < 2 ^ 53"
    by (simp add: w_def)
  have m: "0 \<le> d mod U" "d mod U < U"
    using assms(2) by simp_all
  have U: "(0::rat) < of_int U"
    using assms(2) by simp
  have eq: "inUnits U d = float64 (of_int w + float64 y)"
    using assms(1,2,3) w53 by (simp add: inUnits_unfold w_def y_def)
  show ?thesis
  proof (cases "d mod U = 0")
    case True
    then have "inUnits U d = float64 (of_int w)"
      by (simp add: eq y_def float64_0)
    also have "\<dots> = of_int w"
      using w0 w52 by (intro float64_of_int) simp
    finally show ?thesis
      by (simp add: w_def)
  next
    case False
    with m have "1 \<le> d mod U" by simp
    then have "(of_int 1 :: rat) \<le> of_int (d mod U)"
      by (simp only: of_int_le_iff)
    then have ylo: "1 / of_int U \<le> y"
      using U by (simp add: y_def divide_right_mono)
    have "d mod U \<le> U - 1" using m by simp
    then have "(of_int (d mod U) :: rat) \<le> of_int (U - 1)"
      by (simp only: of_int_le_iff)
    then have "y \<le> of_int (U - 1) / of_int U"
      using U by (simp add: y_def divide_right_mono)
    also have "\<dots> = 1 - 1 / of_int U"
      using U by (simp add: field_simps)
    finally have yhi: "y \<le> 1 - 1 / of_int U" .
    have p54: "0 < pow2 (- 54)" and pk: "0 < pow2 (k - 54)"
      by (simp_all add: pow2_pos)
    have y0: "0 < y"
      using ylo gap p54 pk by linarith
    have "pow2 (- 1022) \<le> pow2 (- 54)"
      by (rule pow2_mono) simp
    then have ny: "normal y"
      using ylo gap pk y0 by (simp add: normal_def)
    have "0 < 1 / (of_int U :: rat)"
      using U by simp
    then have "y < 1"
      using yhi by linarith
    then have "\<bar>y\<bar> < pow2 0"
      using y0 by (simp add: pow2_0)
    then have ey: "\<bar>float64 y - y\<bar> \<le> pow2 (0 - 54)"
      using ny by (intro float64_error_below)
    define z where "z = of_int w + float64 y"
    have zlo: "of_int w + 1 / of_int U - pow2 (- 54) \<le> z"
      using ey ylo by (simp add: z_def abs_le_iff)
    have zhi: "z \<le> of_int w + 1 - 1 / of_int U + pow2 (- 54)"
      using ey yhi by (simp add: z_def abs_le_iff)
    have z0: "pow2 (k - 54) < z"
      using zlo gap w0 by (simp add: algebra_simps) 
    have "pow2 (- 1022) \<le> pow2 (k - 54)"
      using assms(5) by (intro pow2_mono) simp
    then have nz: "normal z"
      using z0 pk by (simp add: normal_def)
    have "\<bar>z\<bar> < pow2 k"
      using zhi z0 pk wk gap by (simp add: abs_less_iff) 
    then have ez: "\<bar>float64 z - z\<bar> \<le> pow2 (k - 54)"
      using nz by (intro float64_error_below)
    have "of_int w < float64 z"
      using ez zlo gap by (simp add: abs_le_iff)
    moreover have "float64 z < of_int w + 1"
      using ez zhi gap by (simp add: abs_le_iff)
    ultimately show ?thesis
      unfolding w_def [symmetric] eq z_def [symmetric] by simp
  qed
qed

lemma div_less_bound:
  assumes "(0::int) < U" and "d < n * U"
  shows "d div U < n"
proof (rule ccontr)
  assume "\<not> d div U < n"
  then have "n \<le> d div U" by simp
  then have "n * U \<le> d div U * U"
    using assms(1) by (simp add: mult_right_mono)
  moreover have "d div U * U + d mod U = d"
    by simp
  moreover have "0 \<le> d mod U"
    using assms(1) by (rule pos_mod_sign)
  ultimately show False
    using assms(2) by linarith
qed

lemma div_ge_bound:
  assumes "(0::int) < U" and "n * U \<le> d"
  shows "n \<le> d div U"
proof (rule ccontr)
  assume "\<not> n \<le> d div U"
  then have "d div U + 1 \<le> n" by simp
  then have "(d div U + 1) * U \<le> n * U"
    using assms(1) by (simp add: mult_right_mono)
  moreover have "d div U * U + d mod U = d"
    by simp
  moreover have "d mod U < U"
    using assms(1) by (rule pos_mod_bound)
  moreover have "(d div U + 1) * U = d div U * U + U"
    by (simp add: algebra_simps)
  ultimately show False
    using assms(2) by linarith
qed

lemma Seconds_exact:
  assumes "0 \<le> d" and "d < 2 ^ 24 * Second"
  shows "of_int (d div Second) \<le> Seconds d \<and> Seconds d < of_int (d div Second) + 1"
  unfolding Seconds_inUnits
proof (rule inUnits_exact [where k = 24])
  have "d div Second < 2 ^ 24"
    using assms by (intro div_less_bound) (simp_all add: Second_def)
  then have "d div Second + 1 \<le> 2 ^ 24" by simp
  then have "(of_int (d div Second + 1) :: rat) \<le> of_int (2 ^ 24)"
    by (simp only: of_int_le_iff)
  then show "(of_int (d div Second + 1) :: rat) \<le> pow2 24"
    by (simp add: pow2_def)
  show "pow2 (24 - 54) + pow2 (- 54) < 1 / rat_of_int Second"
    by (simp add: pow2_def Second_def)
qed (use assms in \<open>simp_all add: Second_def\<close>)

lemma Minutes_exact:
  assumes "0 \<le> d" and "d < Hour"
  shows "of_int (d div Minute) \<le> Minutes d \<and> Minutes d < of_int (d div Minute) + 1"
  unfolding Minutes_inUnits
proof (rule inUnits_exact [where k = 6])
  have "d div Minute < 60"
    using assms by (intro div_less_bound) (simp_all add: Hour_def Minute_def Second_def)
  then have "d div Minute + 1 \<le> 2 ^ 6" by simp
  then have "(of_int (d div Minute + 1) :: rat) \<le> of_int (2 ^ 6)"
    by (simp only: of_int_le_iff)
  then show "(of_int (d div Minute + 1) :: rat) \<le> pow2 6"
    by (simp add: pow2_def)
  show "pow2 (6 - 54) + pow2 (- 54) < 1 / rat_of_int Minute"
    by (simp add: pow2_def Minute_def Second_def)
qed (use assms in \<open>simp_all add: Minute_def Second_def\<close>)

lemma Hours_exact:
  assumes "0 \<le> d" and "d < 4096 * Hour"
  shows "of_int (d div Hour) \<le> Hours d \<and> Hours d < of_int (d div Hour) + 1"
  unfolding Hours_inUnits
proof (rule inUnits_exact [where k = 12])
  have "d div Hour < 4096"
    using assms by (intro div_less_bound) (simp_all add: Hour_def Minute_def Second_def)
  then have "d div Hour + 1 \<le> 2 ^ 12" by simp
  then have "(of_int (d div Hour + 1) :: rat) \<le> of_int (2 ^ 12)"
    by (simp only: of_int_le_iff)
  then show "(of_int (d div Hour + 1) :: rat) \<le> pow2 12"
    by (simp add: pow2_def)
  show "pow2 (12 - 54) + pow2 (- 54) < 1 / rat_of_int Hour"
    by (simp add: pow2_def Hour_def Minute_def Second_def)
qed (use assms in \<open>simp_all add: Hour_def Minute_def Second_def\<close>)

lemma pow2_int: "0 \<le> k \<Longrightarrow> pow2 k = of_int (2 ^ nat k)"
  by (simp add: pow2_def)

lemma pow2_4: "pow2 4 = 16"
  by (simp add: pow2_def)

lemma pow2_5: "pow2 5 = 32"
  by (simp add: pow2_def)

lemma days_exact:
  assumes "24 * Hour \<le> d" and "d < 4096 * Hour"
  shows "toInt (float64 (Hours d / 24)) = d div (24 * Hour)"
proof -
  have H: "0 < Hour" "Hour < 2 ^ 53"
    by (simp_all add: Hour_def Minute_def Second_def)
  have d0: "0 \<le> d"
    using assms(1) H by simp
  define w where "w = d div Hour"
  have w24: "24 \<le> w"
    unfolding w_def using H(1) assms(1) by (rule div_ge_bound)
  have w4096: "w < 4096"
    unfolding w_def using H(1) assms(2) by (rule div_less_bound)
  define y :: rat where "y = of_int (d mod Hour) / of_int Hour"
  define z where "z = of_int w + float64 y"
  define V where "V = float64 z"
  have HV: "Hours d = V"
    using d0 H w4096
    by (simp add: Hours_inUnits inUnits_unfold w_def [symmetric] y_def z_def V_def)
  have Vb: "of_int w \<le> V" "V < of_int w + 1"
    using Hours_exact [OF d0 assms(2)] by (simp_all add: HV w_def)
  have m: "0 \<le> d mod Hour" "d mod Hour < Hour"
    using H(1) by simp_all
  have Hr: "(0::rat) < of_int Hour"
    using H(1) by simp
  have y0: "0 \<le> y"
    using m Hr by (simp add: y_def)
  have "d mod Hour \<le> Hour"
    using m(2) by (rule less_imp_le)
  then have y1: "y \<le> of_int 1"
    using Hr by (simp add: y_def)
  have f0: "0 \<le> float64 y"
    using y0 by (rule float64_nonneg)
  have f1: "float64 y \<le> of_int 1"
    using y0 y1 by (rule float64_le_int) simp
  have wr: "(24::rat) \<le> of_int w" "(of_int w :: rat) < 4096"
    using w24 w4096 by simp_all
  have zb: "of_int w \<le> z" "z \<le> of_int w + 1"
    using f0 f1 by (simp_all add: z_def)
  have zpos: "0 < z"
    using zb wr by linarith
  have "pow2 4 \<le> \<bar>z\<bar>"
    using zb wr by (simp add: pow2_def)
  then have nz: "normal z" and e4: "4 \<le> ilog2 z"
    by (auto intro: normal_ge_pow2 [of 4] ilog2_ge)
  have "\<bar>z\<bar> < pow2 13"
    using zb wr zpos by (simp add: pow2_def)
  then have e13: "ilog2 z < 13"
    using zpos by (intro ilog2_le) auto
  define e where "e = ilog2 z"
  define q where "q = pow2 (e - 52)"
  have q: "0 < q"
    by (simp add: q_def pow2_pos)
  define J where "J = roundEven (z / q)"
  have grid: "V = of_int J * q"
    unfolding V_def J_def q_def e_def using nz by (rule float64_grid)
  define K where "K = (w + 1) * 2 ^ nat (52 - e)"
  have "of_int (w + 1) / q = of_int K"
    using pow2_neg_int [of "e - 52" "w + 1"] e13 by (simp add: q_def K_def e_def)
  then have Kq: "of_int K * q = of_int (w + 1)"
    using q by (simp add: field_simps)
  have "of_int J * q < of_int K * q"
    using Vb(2) by (simp add: grid Kq)
  then have "(of_int J :: rat) < of_int K"
    using q by (simp add: mult_less_cancel_right)
  then have "J + 1 \<le> K"
    by simp
  then have "(of_int (J + 1) :: rat) \<le> of_int K"
    by (simp only: of_int_le_iff)
  then have "of_int (J + 1) * q \<le> of_int K * q"
    using q by (intro mult_right_mono) auto
  moreover have "of_int (J + 1) * q = V + q"
    by (simp add: grid algebra_simps)
  ultimately have "V + q \<le> of_int (w + 1)"
    by (simp only: Kq)
  then have Vq: "V + q \<le> of_int w + 1"
    by simp
  have "\<bar>z\<bar> < pow2 (e + 1)"
    using ilog2_bounds [of z] zpos by (simp add: e_def)
  with zb zpos have "of_int w < pow2 (e + 1)"
    by simp
  also have "pow2 (e + 1) = of_int (2 ^ nat (e + 1))"
    using e4 by (intro pow2_int) (simp add: e_def)
  finally have "w < 2 ^ nat (e + 1)"
    by (simp only: of_int_less_iff)
  then have "w + 1 \<le> 2 ^ nat (e + 1)"
    by simp
  then have "(of_int (w + 1) :: rat) \<le> of_int (2 ^ nat (e + 1))"
    by (simp only: of_int_le_iff)
  also have "of_int (2 ^ nat (e + 1)) = pow2 (e + 1)"
    using e4 by (intro pow2_int [symmetric]) (simp add: e_def)
  finally have w1: "of_int w + 1 \<le> pow2 (e + 1)"
    by simp
  have "pow2 (e + 1) = pow2 (e - 3 + 4)"
    by (rule arg_cong [where f = pow2]) simp
  also have "\<dots> = pow2 (e - 3) * pow2 4"
    by (rule pow2_add)
  finally have p16: "pow2 (e + 1) = 16 * pow2 (e - 3)"
    by (simp add: pow2_4)
  have "q = pow2 (e - 57 + 5)"
    unfolding q_def by (rule arg_cong [where f = pow2]) simp
  also have "\<dots> = pow2 (e - 57) * pow2 5"
    by (rule pow2_add)
  finally have q32: "q = 32 * pow2 (e - 57)"
    by (simp add: pow2_5)
  define t where "t = V / 24"
  have t1: "1 \<le> t"
    using Vb(1) wr by (simp add: t_def)
  have "t < pow2 (e - 3)"
    using Vq q w1 p16 pow2_pos [of "e - 3"] by (simp add: t_def)
  then have tk: "\<bar>t\<bar> < pow2 (e - 3)"
    using t1 by simp
  have nt: "normal t"
    using t1 by (intro normal_ge_pow2 [of 0]) (simp_all add: pow2_0)
  have et: "\<bar>float64 t - t\<bar> \<le> pow2 (e - 3 - 54)"
    using nt tk by (rule float64_error_below)
  define a where "a = w div 24"
  have a: "24 * a \<le> w" "w + 1 \<le> 24 * a + 24" "1 \<le> a"
    using w24 by (simp_all add: a_def)
  have ar: "24 * (of_int a :: rat) \<le> of_int w" "(of_int w :: rat) + 1 \<le> 24 * of_int a + 24"
    using a(1,2) by (simp_all flip: of_int_le_iff [where 'a = rat and z = "24 * a"]
        of_int_le_iff [where 'a = rat and w = "24 * a + 24"])
  have "float64 t \<le> t + pow2 (e - 57)"
    using et by (simp add: abs_le_iff)
  also have "\<dots> < of_int a + 1"
    using Vq ar q q32 pow2_pos [of "e - 57"] by (simp add: t_def)
  finally have up: "float64 t < of_int a + 1" .
  have "of_int a \<le> t"
    using Vb(1) ar by (simp add: t_def)
  then have lo: "of_int a \<le> float64 t"
    using a(3) w4096 by (intro float64_ge_int) (simp_all add: a_def)
  have "toInt (float64 t) = a"
    using lo up a(3) by (intro toInt_floor) simp_all
  moreover have "d div (24 * Hour) = a"
    using zdiv_zmult2_eq [of 24 d Hour] by (simp add: a_def w_def mult.commute)
  ultimately show ?thesis
    by (simp add: HV t_def)
qed

lemma roundEven_near:
  assumes "of_int K - 1 / 2 < m" and "m \<le> of_int K"
  shows "roundEven m = K"
proof -
  have "roundEven m \<le> K"
    using assms(2) by (rule roundEven_le)
  moreover have "\<bar>of_int (roundEven m) - m\<bar> \<le> 1 / 2"
    by (rule roundEven_error)
  then have "of_int K - 1 < (of_int (roundEven m) :: rat)"
    using assms(1) by linarith
  then have "(of_int (K - 1) :: rat) < of_int (roundEven m)"
    by simp
  then have "K - 1 < roundEven m"
    by (simp only: of_int_less_iff)
  ultimately show ?thesis by simp
qed

lemma inUnits_up:
  assumes "0 \<le> d" and "0 < U" and "U < 2 ^ 53" and "0 \<le> e" and "e \<le> 52"
    and lo: "pow2 e \<le> of_int (d div U)"
    and hi: "of_int (d div U) + 1 < pow2 (e + 1)"
    and ne: "d mod U \<noteq> 0"
    and close: "(1 - of_int (d mod U) / of_int U + pow2 (- 54)) / pow2 (e - 52) < 1 / 2"
  shows "inUnits U d = of_int (d div U) + 1"
proof -
  define w where "w = d div U"
  define y :: rat where "y = of_int (d mod U) / of_int U"
  define z where "z = of_int w + float64 y"
  have wpos: "(0::rat) < of_int w"
    using lo pow2_pos [of e] by (simp add: w_def)
  have "(of_int w :: rat) < pow2 (e + 1)"
    using hi by (simp add: w_def)
  also have "pow2 (e + 1) \<le> pow2 53"
    using assms(5) by (intro pow2_mono) simp
  finally have "(of_int w :: rat) < of_int (2 ^ 53)"
    by (simp add: pow2_53)
  then have w53: "w < 2 ^ 53"
    by (simp only: of_int_less_iff)
  have eq: "inUnits U d = float64 z"
    using assms(1,2,3) w53 by (simp add: inUnits_unfold w_def y_def z_def)
  have m: "0 \<le> d mod U" "d mod U < U"
    using assms(2) by simp_all
  have U: "(0::rat) < of_int U"
    using assms(2) by simp
  have "1 \<le> d mod U"
    using m ne by simp
  then have "(of_int 1 :: rat) \<le> of_int (d mod U)"
    by (simp only: of_int_le_iff)
  then have ylo: "1 / of_int U \<le> y"
    using U by (simp add: y_def divide_right_mono)
  have "(of_int U :: rat) < of_int (2 ^ 53)"
    using assms(3) by (simp only: of_int_less_iff)
  then have "(of_int U :: rat) < pow2 53"
    by (simp add: pow2_53)
  then have "1 / pow2 53 < 1 / (of_int U :: rat)"
    using U by (intro divide_strict_left_mono) (simp_all add: pow2_pos)
  moreover have "1 / pow2 53 = pow2 (0 - 53)"
    by (simp only: pow2_diff pow2_0)
  moreover have "pow2 (- 1022) \<le> pow2 (0 - 53)"
    by (intro pow2_mono) simp
  ultimately have "pow2 (- 1022) \<le> y"
    using ylo by linarith
  moreover have "0 < 1 / (of_int U :: rat)"
    using U by simp
  then have y0: "0 < y"
    using ylo by linarith
  ultimately have ny: "normal y"
    by (simp add: normal_def)
  have "d mod U \<le> U"
    using m(2) by (rule less_imp_le)
  then have y1: "y \<le> of_int 1"
    using U by (simp add: y_def)
  have "(of_int (d mod U) :: rat) < of_int U"
    using m(2) by (simp only: of_int_less_iff)
  then have "y < 1"
    using U by (simp add: y_def)
  then have "\<bar>y\<bar> < pow2 0"
    using y0 by (simp add: pow2_0)
  then have ey: "\<bar>float64 y - y\<bar> \<le> pow2 (0 - 54)"
    using ny by (intro float64_error_below)
  have f1: "float64 y \<le> of_int 1"
    using y0 y1 by (intro float64_le_int) simp_all
  have zlo: "of_int w + y - pow2 (- 54) \<le> z"
    using ey by (simp add: z_def abs_le_iff)
  have zhi: "z \<le> of_int w + 1"
    using f1 by (simp add: z_def)
  have f0: "0 \<le> float64 y"
    using y0 by (intro float64_nonneg) simp
  have zw: "of_int w \<le> z"
    using f0 by (simp add: z_def)
  have zpos: "0 < z"
    using zw wpos by linarith
  have "pow2 e \<le> \<bar>z\<bar>"
    using lo zw zpos by (simp add: w_def)
  moreover have "\<bar>z\<bar> < pow2 (e + 1)"
    using hi zhi zpos by (simp add: w_def)
  ultimately have ez: "ilog2 z = e"
    by (rule ilog2_unique)
  have "pow2 (- 1022) \<le> pow2 e"
    using assms(4) by (intro pow2_mono) simp
  with \<open>pow2 e \<le> \<bar>z\<bar>\<close> have nz: "normal z"
    by (simp add: normal_def)
  define q where "q = pow2 (e - 52)"
  have q: "0 < q"
    by (simp add: q_def pow2_pos)
  have grid: "float64 z = of_int (roundEven (z / q)) * q"
    using float64_grid [OF nz] by (simp add: ez q_def)
  define K where "K = (w + 1) * 2 ^ nat (52 - e)"
  have Kq: "of_int (w + 1) / q = of_int K"
    using pow2_neg_int [of "e - 52" "w + 1"] assms(5) by (simp add: q_def K_def)
  have "z / q \<le> of_int (w + 1) / q"
    using zhi q by (simp add: divide_right_mono)
  then have m2: "z / q \<le> of_int K"
    by (simp only: Kq)
  have "(of_int (w + 1) - (1 - y + pow2 (- 54))) / q \<le> z / q"
    using zlo q by (intro divide_right_mono) simp_all
  moreover have "(of_int (w + 1) - (1 - y + pow2 (- 54))) / q
      = of_int K - (1 - y + pow2 (- 54)) / q"
    by (simp only: diff_divide_distrib Kq)
  moreover have "(1 - y + pow2 (- 54)) / q < 1 / 2"
    using close by (simp only: y_def q_def)
  ultimately have m1: "of_int K - 1 / 2 < z / q"
    by linarith
  have "roundEven (z / q) = K"
    using m1 m2 by (rule roundEven_near)
  then have "float64 z = of_int K * q"
    by (simp add: grid)
  also have "\<dots> = of_int (w + 1) / q * q"
    by (simp only: Kq)
  also have "\<dots> = of_int (w + 1)"
    using q by simp
  finally show ?thesis
    by (simp add: eq w_def)
qed

lemma Hours_171_days: "Hours (171 * (24 * Hour) - 1) = 4104"
proof -
  have d: "171 * (24 * Hour) - 1 = 14774399999999999"
    by (simp add: Hour_def Minute_def Second_def)
  have dv: "(14774399999999999::int) div 3600000000000 = 4103"
    and md: "(14774399999999999::int) mod 3600000000000 = 3599999999999"
    by simp_all
  have "inUnits 3600000000000 14774399999999999
        = of_int (14774399999999999 div 3600000000000) + 1"
    by (rule inUnits_up [where e = 12]) (simp_all add: dv md pow2_def)
  then show ?thesis
    by (simp add: Hours_inUnits d Hour_def Minute_def Second_def dv)
qed

lemma Seconds_far_future: "Seconds (- 16777216999999999) = - 16777217"
proof -
  have dv: "(16777216999999999::int) div 1000000000 = 16777216"
    and md: "(16777216999999999::int) mod 1000000000 = 999999999"
    by simp_all
  have "inUnits 1000000000 16777216999999999
        = of_int (16777216999999999 div 1000000000) + 1"
    by (rule inUnits_up [where e = 24]) (simp_all add: dv md pow2_def)
  then have "inUnits Second 16777216999999999 = 16777217"
    by (simp add: Second_def dv)
  then show ?thesis
    using inUnits_uminus [of Second 16777216999999999] by (simp add: Seconds_inUnits)
qed

lemma toInt_Seconds_nonneg:
  assumes "0 \<le> d" and "d < 2 ^ 24 * Second"
  shows "toInt (Seconds d) = d div Second"
proof -
  have "0 \<le> d div Second"
    using assms(1) by (simp add: Second_def pos_imp_zdiv_nonneg_iff)
  with Seconds_exact [OF assms] show ?thesis
    by (intro toInt_floor) simp_all
qed

lemma toInt_Seconds_exact:
  assumes "- (2 ^ 24 * Second) < d" and "d < 2 ^ 24 * Second"
  shows "toInt (Seconds d) = quo d Second"
proof (cases "0 \<le> d")
  case True
  then show ?thesis
    using assms(2) by (simp add: toInt_Seconds_nonneg quo_nonneg Second_def)
next
  case False
  then have "0 \<le> - d" and "- d < 2 ^ 24 * Second"
    using assms(1) by simp_all
  then have "toInt (Seconds (- d)) = quo (- d) Second"
    by (simp add: toInt_Seconds_nonneg quo_nonneg Second_def)
  then show ?thesis
    by (simp add: Seconds_inUnits inUnits_uminus toInt_uminus quo_uminus)
qed

lemma toInt_Minutes_exact:
  assumes "0 \<le> d" and "d < Hour"
  shows "toInt (Minutes d) = quo d Minute"
proof -
  have "0 \<le> d div Minute"
    using assms(1) by (simp add: Minute_def Second_def pos_imp_zdiv_nonneg_iff)
  with Minutes_exact [OF assms] have "toInt (Minutes d) = d div Minute"
    by (intro toInt_floor) simp_all
  then show ?thesis
    using assms(1) by (simp add: quo_nonneg Minute_def Second_def)
qed

lemma toInt_Hours_exact:
  assumes "0 \<le> d" and "d < 4096 * Hour"
  shows "toInt (Hours d) = quo d Hour"
proof -
  have "0 \<le> d div Hour"
    using assms(1) by (simp add: Hour_def Minute_def Second_def pos_imp_zdiv_nonneg_iff)
  with Hours_exact [OF assms] have "toInt (Hours d) = d div Hour"
    by (intro toInt_floor) simp_all
  then show ?thesis
    using assms(1) by (simp add: quo_nonneg Hour_def Minute_def Second_def)
qed

lemma sinceDuration_exact:
  assumes "- (2 ^ 24 * Second) < d" and "d < 4096 * Hour"
  shows "sinceDuration d =
     (if d < Minute then fmt_d (quo d Second) @ '' seconds''
      else if d < Hour then fmt_d (quo d Minute) @ '' minutes''
      else if d < 24 * Hour then fmt_d (quo d Hour) @ '' hours''
      else fmt_d (quo d (24 * Hour)) @ '' days'')"
proof -
  consider (s) "d < Minute" | (m) "Minute \<le> d" "d < Hour" | (h) "Hour \<le> d" "d < 24 * Hour"
    | (d) "24 * Hour \<le> d"
    by linarith
  then show ?thesis
  proof cases
    case s
    then have "d < 2 ^ 24 * Second"
      by (simp add: Minute_def Second_def)
    with assms(1) s show ?thesis
      by (simp add: sinceDuration_def toInt_Seconds_exact)
  next
    case m
    then have "0 \<le> d"
      by (simp add: Minute_def Second_def)
    with m show ?thesis
      by (simp add: sinceDuration_def toInt_Minutes_exact)
  next
    case h
    then have "0 \<le> d" "\<not> d < Minute" "d < 4096 * Hour"
      by (simp_all add: Hour_def Minute_def Second_def)
    with h show ?thesis
      by (simp add: sinceDuration_def toInt_Hours_exact)
  next
    case d
    then have "0 \<le> d" "\<not> d < Minute" "\<not> d < Hour" "\<not> d < 24 * Hour"
      by (simp_all add: Hour_def Minute_def Second_def)
    moreover have "0 < 24 * Hour"
      by (simp add: Hour_def Minute_def Second_def)
    ultimately show ?thesis
      using days_exact [OF d assms(2)]
      by (simp add: sinceDuration_def quo_nonneg)
  qed
qed

lemma sinceDuration_171_days:
  "sinceDuration (171 * (24 * Hour) - 1) = ''171 days''
   \<and> quo (171 * (24 * Hour) - 1) (24 * Hour) = 170"
proof -
  define D where "D = 171 * (24 * Hour) - 1"
  have H: "Hours D = 4104"
    unfolding D_def by (rule Hours_171_days)
  have "float64 (4104 / 24) = float64 (of_int 171)"
    by simp
  also have "\<dots> = of_int 171"
    by (rule float64_of_int) simp
  finally have "toInt (float64 (Hours D / 24)) = 171"
    by (simp add: H toInt_def)
  moreover have "\<not> D < 24 * Hour" "\<not> D < Hour" "\<not> D < Minute"
    by (simp_all add: D_def Hour_def Minute_def Second_def)
  moreover have "fmt_d 171 = ''171''"
    by (simp add: fmt_eval)
  ultimately have "sinceDuration D = ''171 days''"
    by (simp add: sinceDuration_def)
  moreover have "quo D (24 * Hour) = 170"
    by (simp add: D_def quo_def Hour_def Minute_def Second_def)
  ultimately show ?thesis
    unfolding D_def by simp
qed

lemma Seconds_negative:
  assumes "d < 0" and "minDuration \<le> d"
  shows "toInt (Seconds d) \<le> 0 \<and> quo d Second - 1 \<le> toInt (Seconds d)
       \<and> toInt (Seconds d) \<le> quo d Second \<and> (d \<le> - Second \<longrightarrow> toInt (Seconds d) < 0)"
proof -
  define w where "w = (- d) div Second"
  have S: "0 < Second" "Second < 2 ^ 53"
    by (simp_all add: Second_def)
  have d0: "0 \<le> - d"
    using assms(1) by simp
  have w0: "0 \<le> w"
    using d0 S(1) by (simp add: w_def pos_imp_zdiv_nonneg_iff)
  have "- d < 9223372037 * Second"
    using assms(2) by (simp add: minDuration_def Second_def)
  then have "w < 9223372037"
    unfolding w_def using S(1) by (intro div_less_bound)
  then have w53: "w + 1 < 2 ^ 53"
    by simp
  have b: "of_int w \<le> inUnits Second (- d)" "inUnits Second (- d) \<le> of_int w + 1"
    using inUnits_bounds [OF d0 S] w53 by (simp_all add: w_def)
  define V where "V = inUnits Second (- d)"
  have "(0::rat) \<le> of_int w"
    using w0 by simp
  then have V0: "0 \<le> V"
    using b(1) unfolding V_def by linarith
  have fl: "w \<le> \<lfloor>V\<rfloor>" "\<lfloor>V\<rfloor> \<le> w + 1"
    using b by (simp_all add: V_def le_floor_iff floor_le_iff)
  have "Seconds d = - V"
    using inUnits_uminus [of Second "- d"] by (simp add: Seconds_inUnits V_def)
  then have "toInt (Seconds d) = - toInt V"
    by (simp only: toInt_uminus)
  then have n: "toInt (Seconds d) = - \<lfloor>V\<rfloor>"
    using V0 by (simp add: toInt_def)
  have q: "quo d Second = - w"
    using quo_uminus [of "- d" Second] d0 S(1) by (simp add: quo_nonneg w_def)
  have "d \<le> - Second \<Longrightarrow> 1 \<le> w"
    unfolding w_def using S(1) by (intro div_ge_bound) simp_all
  then show ?thesis
    unfolding n q using fl w0 by linarith
qed

section \<open>Properties of the selection handler and of the refresh\<close>

lemma fmt_d_5: "fmt_d 5 = ''5''"
  by (simp add: fmt_eval)

lemma showForRow_total: "showForRow env a row \<noteq> None"
  by (simp add: showForRow_def indexAt_def Let_def)

lemma showForRow_out:
  "row - 1 < 0 \<or> int (length (containers a)) \<le> row - 1 \<Longrightarrow> showForRow env a row = Some a"
  by (auto simp add: showForRow_def Let_def)

lemma showForRow_in:
  "0 \<le> row - 1 \<Longrightarrow> row - 1 < int (length (containers a))
   \<Longrightarrow> showForRow env a row = Some (showContainer env a (containers a ! nat (row - 1)))"
  by (simp add: showForRow_def indexAt_def Let_def)

lemma fetchLogs_requests:
  "requests (snd (fetchLogs env a i n)) = requests a @ [LogsRequest i (fmt_d n)]"
  by (simp add: fetchLogs_def clientLogs_def split: result.splits)

lemma fetchLogs_other:
  "details (snd (fetchLogs env a i n)) = details a"
  "logs (snd (fetchLogs env a i n)) = logs a"
  "table (snd (fetchLogs env a i n)) = table a"
  "containers (snd (fetchLogs env a i n)) = containers a"
  "statusBar (snd (fetchLogs env a i n)) = statusBar a"
  "clockReads (snd (fetchLogs env a i n)) = clockReads a"
  "stopped (snd (fetchLogs env a i n)) = stopped a"
  by (simp_all add: fetchLogs_def clientLogs_def split: result.splits)

lemma fetchLogs_result:
  "fst (fetchLogs env a i n) =
     (case ContainerLogs env (requests a) i (fmt_d n) of
        Err e \<Rightarrow> Err e
      | Ok rdr \<Rightarrow> (case rdr of Err e \<Rightarrow> Err e | Ok b \<Rightarrow> Ok (TrimSpace (ReplaceAllCR b))))"
  by (simp add: fetchLogs_def clientLogs_def split: result.splits)


lemma showContainer_requests:
  "requests (showContainer env a c)
     = requests a @ [InspectRequest (ID c), LogsRequest (ID c) ''5'']"
  by (simp add: showContainer_def clientInspect_def detailsText_def timeNow_def Let_def
      fetchLogs_def clientLogs_def fmt_d_5 split: result.splits prod.splits)

lemma showContainer_inspect_err:
  assumes "ContainerInspect env (requests a) (ID c) = Err e"
  shows "details (showContainer env a c) = ''[red]Inspect error: '' @ e"
  using assms
  by (simp add: showContainer_def clientInspect_def Let_def fetchLogs_def clientLogs_def
      split: result.splits prod.splits)

lemma showContainer_logs:
  "logs (showContainer env a c) =
     (case ContainerLogs env (requests a @ [InspectRequest (ID c)]) (ID c) ''5'' of
        Err e \<Rightarrow> ''[red]Logs error: '' @ e
      | Ok rdr \<Rightarrow>
          (case rdr of
             Err e \<Rightarrow> ''[red]Logs error: '' @ e
           | Ok raw \<Rightarrow>
               (if TrimSpace (ReplaceAllCR raw) = [] then ''(no logs)''
                else TrimSpace (ReplaceAllCR raw))))"
  by (simp add: showContainer_def clientInspect_def detailsText_def timeNow_def Let_def
      fetchLogs_def clientLogs_def fmt_d_5 TrimSpace_TrimSpace_empty
      split: result.splits prod.splits)

lemma showContainer_other:
  "table (showContainer env a c) = table a"
  "containers (showContainer env a c) = containers a"
  "statusBar (showContainer env a c) = statusBar a"
  "stopped (showContainer env a c) = stopped a"
  by (simp_all add: showContainer_def clientInspect_def detailsText_def timeNow_def Let_def
      fetchLogs_def clientLogs_def split: result.splits prod.splits)

lemma showContainer_details_ok:
  assumes "ContainerInspect env (requests a) (ID c) = Ok ins"
  shows "details (showContainer env a c) =
     ''[::b]Name:[-] '' @ Name c @ newline
     @ ''[::b]ID:[-] '' @ ID c @ newline
     @ ''[::b]Image:[-] '' @ Image c @ newline
     @ ''[::b]State:[-] '' @ insStatus ins @ newline
     @ ''[::b]Status:[-] '' @ Status c @ newline
     @ (if IsZero (parseTime env (insStartedAt ins)) then []
        else ''[::b]Started:[-] '' @ FormatRFC1123 env (parseTime env (insStartedAt ins))
             @ '' ('' @ since (Now env (clockReads a)) (parseTime env (insStartedAt ins))
             @ '' ago)'' @ newline)"
  using assms
  by (simp add: showContainer_def clientInspect_def detailsText_def timeNow_def Let_def
      fetchLogs_def clientLogs_def split: result.splits prod.splits)



lemma fillRows_containers:
  "containers (fillRows env a r ctns) = containers a @ map (summaryOf env) ctns"
  by (induction ctns arbitrary: a r) (simp_all add: Let_def)

lemma fillRows_other:
  "requests (fillRows env a r ctns) = requests a"
  "details (fillRows env a r ctns) = details a"
  "logs (fillRows env a r ctns) = logs a"
  "statusBar (fillRows env a r ctns) = statusBar a"
  "clockReads (fillRows env a r ctns) = clockReads a"
  "stopped (fillRows env a r ctns) = stopped a"
  by (induction ctns arbitrary: a r) (simp_all add: Let_def)

lemma fillRows_selection:
  "selectedRow (table (fillRows env a r ctns)) = selectedRow (table a)"
  "selectedColumn (table (fillRows env a r ctns)) = selectedColumn (table a)"
  by (induction ctns arbitrary: a r) (simp_all add: Let_def SetCell_def)

lemma refresh_list_err:
  "ContainerList env (requests a) = Err e
   \<Longrightarrow> refresh env a = Some (Some e, a\<lparr>requests := requests a @ [ListRequest True]\<rparr>)"
  by (simp add: refresh_def clientList_def)



text \<open>
  Claim C8. \<open>showForRow\<close> never panics, for any row: the summary list is indexed only with
  an index inside its bounds. For a row whose index \<open>row - 1\<close> is outside the list (the
  header row 0 among them) it returns the application as it was, so no request has been sent;
  for a row inside, it shows the summary at index \<open>row - 1\<close>.
\<close>

theorem showForRow_validates_index:
  "showForRow env a row \<noteq> None \<and>
   (row - 1 < 0 \<or> int (length (containers a)) \<le> row - 1 \<longrightarrow> showForRow env a row = Some a) \<and>
   (0 \<le> row - 1 \<and> row - 1 < int (length (containers a)) \<longrightarrow>
      nat (row - 1) < length (containers a) \<and>
      showForRow env a row = Some (showContainer env a (containers a ! nat (row - 1))))"
  using showForRow_total [of env a row] showForRow_out [of row a env] showForRow_in [of row a env]
  by auto

text \<open>
  With one summary in the list, rows 0 and 2 leave the application as it was and row 1
  shows the summary.
\<close>

theorem showForRow_validates_index_witness:
  "showForRow (exampleEnv (Err ''down'') (Err ''down'') (Err ''down'') (Err ''bad'') 0) exampleApp 0
     = Some exampleApp \<and>
   showForRow (exampleEnv (Err ''down'') (Err ''down'') (Err ''down'') (Err ''bad'') 0) exampleApp 2
     = Some exampleApp \<and>
   showForRow (exampleEnv (Err ''down'') (Err ''down'') (Err ''down'') (Err ''bad'') 0) exampleApp 1
     = Some (showContainer (exampleEnv (Err ''down'') (Err ''down'') (Err ''down'') (Err ''bad'') 0)
               exampleApp exampleSummary)"
  using showForRow_validates_index [of "exampleEnv (Err ''down'') (Err ''down'') (Err ''down'') (Err ''bad'') 0" exampleApp 0]
    showForRow_validates_index [of "exampleEnv (Err ''down'') (Err ''down'') (Err ''down'') (Err ''bad'') 0" exampleApp 2]
    showForRow_validates_index [of "exampleEnv (Err ''down'') (Err ''down'') (Err ''down'') (Err ''bad'') 0" exampleApp 1]
  by (simp add: exampleApp_def)

text \<open>
  Claim C3. When the list request fails, \<open>refresh\<close> returns the error and the application
  as it was, apart from the record of the request that was sent. The handler of the key
  \<open>r\<close> then writes the error to the status line, and the summary list, the table, the
  details and the logs are what they were.
\<close>

theorem refresh_list_failure:
  assumes "ContainerList env (requests a) = Err e"
  shows "refresh env a = Some (Some e, a\<lparr>requests := requests a @ [ListRequest True]\<rparr>) \<and>
    (\<exists>a'. inputCapture env a (CHR ''r'') = Some (False, a') \<and>
       containers a' = containers a \<and> table a' = table a \<and>
       details a' = details a \<and> logs a' = logs a \<and>
       requests a' = requests a @ [ListRequest True] \<and>
       statusBar a' = FormatClock env (Now env (clockReads a)) @ ''[red]Refresh error: '' @ e)"
  using assms
  by (simp add: refresh_list_err inputCapture_def setStatus_def timeNow_def)

text \<open>
  A daemon that is down: the refresh returns its error and changes nothing else.
\<close>

theorem refresh_list_failure_witness:
  "ContainerList (exampleEnv (Err ''daemon down'') (Err ''x'') (Err ''x'') (Err ''x'') 0)
     (requests exampleApp) = Err ''daemon down'' \<and>
   refresh (exampleEnv (Err ''daemon down'') (Err ''x'') (Err ''x'') (Err ''x'') 0) exampleApp
     = Some (Some ''daemon down'', exampleApp\<lparr>requests := [ListRequest True]\<rparr>)"
  using refresh_list_failure [of "exampleEnv (Err ''daemon down'') (Err ''x'') (Err ''x'') (Err ''x'') 0" exampleApp "''daemon down''"]
  by (simp add: exampleEnv_def exampleApp_def)

text \<open>
  Claim C4. For a row inside the list, when the inspect request fails the details are the
  inline error message, the logs request is sent after the inspect request, and when the
  logs are fetched the logs view shows them (trimmed, or the placeholder when nothing is
  left), as it does when the inspection succeeds.
\<close>

theorem inspect_failure_keeps_logs:
  assumes "0 \<le> row - 1" and "row - 1 < int (length (containers a))"
    and "c = containers a ! nat (row - 1)"
    and "ContainerInspect env (requests a) (ID c) = Err e"
  shows "\<exists>a'. showForRow env a row = Some a' \<and>
     details a' = ''[red]Inspect error: '' @ e \<and>
     requests a' = requests a @ [InspectRequest (ID c), LogsRequest (ID c) ''5''] \<and>
     (\<forall>raw. ContainerLogs env (requests a @ [InspectRequest (ID c)]) (ID c) ''5'' = Ok (Ok raw)
        \<longrightarrow> logs a' = (if TrimSpace (ReplaceAllCR raw) = [] then ''(no logs)''
                      else TrimSpace (ReplaceAllCR raw)))"
  using assms
  by (simp add: showForRow_in showContainer_inspect_err showContainer_requests showContainer_logs)


lemma trimSpaceStop_keep:
  "v \<noteq> [] \<Longrightarrow> byte (last v) < 0x80 \<Longrightarrow> \<not> asciiSpace (byte (last v)) \<Longrightarrow> trimSpaceStop v = v"
  by (subst trimSpaceStop.simps) simp

lemma trimSpaceStop_drop:
  "v \<noteq> [] \<Longrightarrow> byte (last v) < 0x80 \<Longrightarrow> asciiSpace (byte (last v))
   \<Longrightarrow> trimSpaceStop v = trimSpaceStop (butlast v)"
  by (subst trimSpaceStop.simps) simp

lemmas trim_eval = TrimSpace_def ReplaceAllCR_def trimSpaceStop_keep trimSpaceStop_drop
  trimSpaceStop_Nil asciiSpace_def byte_def






text \<open>
  The inspection fails and the daemon sends one line of logs ending in a carriage return and
  a line feed.
\<close>

theorem inspect_failure_keeps_logs_witness:
  "(0::int) \<le> 1 - 1 \<and> (1::int) - 1 < int (length (containers exampleApp)) \<and>
   (\<exists>a'. showForRow (exampleEnv (Err ''x'') (Err ''no such container'')
                        (Ok (Ok (''t1 ready'' @ [CHR 0x0D, CHR 0x0A]))) (Err ''x'') 0) exampleApp 1
            = Some a' \<and>
      details a' = ''[red]Inspect error: no such container'' \<and>
      requests a' = [InspectRequest ''4f2a'', LogsRequest ''4f2a'' ''5''] \<and>
      logs a' = ''t1 ready'')"
  using inspect_failure_keeps_logs [of 1 exampleApp exampleSummary
      "exampleEnv (Err ''x'') (Err ''no such container'')
         (Ok (Ok (''t1 ready'' @ [CHR 0x0D, CHR 0x0A]))) (Err ''x'') 0" "''no such container''"]
  by (simp add: exampleEnv_def exampleApp_def exampleSummary_def trim_eval)





section \<open>Properties of the rebuilt list\<close>

lemma rebuild_containers:
  "containers (rebuild env a listed) = map (summaryOf env) (SliceStable listed lessContainer)"
  by (simp add: rebuild_def Let_def setStatus_def timeNow_def fillRows_containers)

lemma rebuild_requests: "requests (rebuild env a listed) = requests a"
  by (simp add: rebuild_def Let_def setStatus_def timeNow_def fillRows_other)

lemma rebuild_Nil_table:
  "table (rebuild env a []) = setHeaders (Clear (table a)) 0 headers"
  by (simp add: rebuild_def Let_def setStatus_def timeNow_def SliceStable_Nil)

lemma rebuild_status:
  "statusBar (rebuild env a listed) =
     FormatClock env (Now env (clockReads a)) @ ''[green]Refreshed. ''
       @ fmt_d (int (length listed)) @ '' containers.''"
  by (simp add: rebuild_def Let_def setStatus_def timeNow_def fillRows_containers fillRows_other
      length_SliceStable)

text \<open>
  Claim C5. After a list request that succeeds: when records were listed, the summary list
  is that of the sorted records, the first data row (row 1, column 0) is selected and
  \<open>showForRow\<close> is run for row 1, which sends the inspect and the logs request for the
  first summary; when nothing was listed, the details say \<open>No containers found.\<close>, the
  logs are empty, the table has its header only, and the list request is the only request
  sent.
\<close>

theorem refresh_success:
  assumes "ContainerList env (requests a) = Ok listed"
  shows
    "(listed \<noteq> [] \<longrightarrow>
       (\<exists>b a'. refresh env a = Some (None, a') \<and>
          b = rebuild env (a\<lparr>requests := requests a @ [ListRequest True]\<rparr>) listed \<and>
          containers b = map (summaryOf env) (SliceStable listed lessContainer) \<and>
          containers b \<noteq> [] \<and>
          showForRow env (b\<lparr>table := Select (table b) 1 0\<rparr>) 1 = Some a' \<and>
          a' = showContainer env (b\<lparr>table := Select (table b) 1 0\<rparr>) (containers b ! 0) \<and>
          selectedRow (table a') = 1 \<and> selectedColumn (table a') = 0 \<and>
          requests a' = requests a @ [ListRequest True, InspectRequest (ID (containers b ! 0)),
                                      LogsRequest (ID (containers b ! 0)) ''5''])) \<and>
     (listed = [] \<longrightarrow>
       (\<exists>a'. refresh env a = Some (None, a') \<and>
          details a' = ''No containers found.'' \<and> logs a' = [] \<and>
          containers a' = [] \<and>
          table a' = setHeaders (Clear (table a)) 0 headers \<and>
          requests a' = requests a @ [ListRequest True]))"
proof (intro conjI impI)
  assume ne: "listed \<noteq> []"
  define b where "b = rebuild env (a\<lparr>requests := requests a @ [ListRequest True]\<rparr>) listed"
  have cb: "containers b = map (summaryOf env) (SliceStable listed lessContainer)"
    by (simp add: b_def rebuild_containers)
  have "length (containers b) = length listed"
    by (simp add: cb length_SliceStable)
  with ne have pos: "0 < length (containers b)"
    by simp
  define b1 where "b1 = b\<lparr>table := Select (table b) 1 0\<rparr>"
  have sh: "showForRow env b1 1 = Some (showContainer env b1 (containers b ! 0))"
    using pos showForRow_in [of 1 b1 env] by (simp add: b1_def)
  have "refresh env a = Some (None, showContainer env b1 (containers b ! 0))"
    using assms pos sh
    by (simp add: refresh_def clientList_def Let_def b_def [symmetric] b1_def [symmetric])
  moreover have "selectedRow (table (showContainer env b1 (containers b ! 0))) = 1"
    "selectedColumn (table (showContainer env b1 (containers b ! 0))) = 0"
    by (simp_all add: showContainer_other b1_def Select_def)
  moreover have "requests (showContainer env b1 (containers b ! 0))
      = requests a @ [ListRequest True, InspectRequest (ID (containers b ! 0)),
                      LogsRequest (ID (containers b ! 0)) ''5'']"
    by (simp add: showContainer_requests b1_def b_def rebuild_requests)
  ultimately show "\<exists>b a'. refresh env a = Some (None, a') \<and>
          b = rebuild env (a\<lparr>requests := requests a @ [ListRequest True]\<rparr>) listed \<and>
          containers b = map (summaryOf env) (SliceStable listed lessContainer) \<and>
          containers b \<noteq> [] \<and>
          showForRow env (b\<lparr>table := Select (table b) 1 0\<rparr>) 1 = Some a' \<and>
          a' = showContainer env (b\<lparr>table := Select (table b) 1 0\<rparr>) (containers b ! 0) \<and>
          selectedRow (table a') = 1 \<and> selectedColumn (table a') = 0 \<and>
          requests a' = requests a @ [ListRequest True, InspectRequest (ID (containers b ! 0)),
                                      LogsRequest (ID (containers b ! 0)) ''5'']"
    using cb pos sh unfolding b1_def b_def by auto
next
  assume "listed = []"
  then show "\<exists>a'. refresh env a = Some (None, a') \<and>
          details a' = ''No containers found.'' \<and> logs a' = [] \<and>
          containers a' = [] \<and>
          table a' = setHeaders (Clear (table a)) 0 headers \<and>
          requests a' = requests a @ [ListRequest True]"
    using assms
    by (simp add: refresh_def clientList_def Let_def rebuild_containers rebuild_requests
        rebuild_Nil_table SliceStable_Nil)
qed


lemmas sort_eval = SliceStable_def stable_def insertionBlocks.simps insertionSort_def
  insertionOuter.simps insertionInner.simps mergePasses.simps swap_def Let_def

lemma sort_two:
  "SliceStable [exampleContainer ''1'' ''/a'' ''exited'', exampleContainer ''2'' ''/b'' ''running'']
     lessContainer
   = [exampleContainer ''2'' ''/b'' ''running'', exampleContainer ''1'' ''/a'' ''exited'']"
  by (simp add: sort_eval lessContainer_def exampleContainer_def)

lemma sort_three:
  "SliceStable [exampleContainer ''1'' ''/b'' ''exited'', exampleContainer ''2'' ''/x'' ''paused'',
                exampleContainer ''3'' ''/a'' ''exited''] lessContainer
   = [exampleContainer ''1'' ''/b'' ''exited'', exampleContainer ''2'' ''/x'' ''paused'',
      exampleContainer ''3'' ''/a'' ''exited'']"
  by (simp add: sort_eval lessContainer_def exampleContainer_def)

text \<open>
  Two records, an exited \<open>a\<close> and a running \<open>b\<close>: the running one comes first and is
  shown. No record: the message, and no further request.
\<close>

theorem refresh_success_witness:
  "(\<exists>a'. refresh (exampleEnv (Ok [exampleContainer ''1'' ''/a'' ''exited'',
                                     exampleContainer ''2'' ''/b'' ''running''])
                       (Err ''x'') (Err ''x'') (Err ''x'') 0) exampleApp = Some (None, a') \<and>
      selectedRow (table a') = 1 \<and> selectedColumn (table a') = 0 \<and>
      requests a' = [ListRequest True, InspectRequest ''2'', LogsRequest ''2'' ''5'']) \<and>
   (\<exists>a'. refresh (exampleEnv (Ok []) (Err ''x'') (Err ''x'') (Err ''x'') 0) exampleApp
            = Some (None, a') \<and>
      details a' = ''No containers found.'' \<and> logs a' = [] \<and>
      requests a' = [ListRequest True])"
  using refresh_success [of "exampleEnv (Ok [exampleContainer ''1'' ''/a'' ''exited'',
                                     exampleContainer ''2'' ''/b'' ''running''])
                       (Err ''x'') (Err ''x'') (Err ''x'') 0" exampleApp
                       "[exampleContainer ''1'' ''/a'' ''exited'', exampleContainer ''2'' ''/b'' ''running'']"]
    refresh_success [of "exampleEnv (Ok []) (Err ''x'') (Err ''x'') (Err ''x'') 0" exampleApp "[]"]
  by (auto simp add: sort_two summaryOf_def) (auto simp add: exampleEnv_def exampleApp_def exampleContainer_def)

text \<open>
  Claim C1. The summary list has as many entries as records were listed. It is not always
  ordered by name within a state: the comparison function calls two records with different
  states, neither of them running, equal, and an exited \<open>b\<close>, a paused \<open>x\<close> and an
  exited \<open>a\<close> stay in this order, the exited \<open>b\<close> before the exited \<open>a\<close>.
\<close>

theorem rebuild_order_example:
  "length (containers (rebuild env a listed)) = length listed \<and>
   map (\<lambda>c. (Name c, State c))
     (containers (rebuild env a [exampleContainer ''1'' ''/b'' ''exited'',
        exampleContainer ''2'' ''/x'' ''paused'', exampleContainer ''3'' ''/a'' ''exited'']))
   = [(''b'', ''exited''), (''x'', ''paused''), (''a'', ''exited'')]"
  by (simp add: rebuild_containers length_SliceStable sort_three)
     (simp add: summaryOf_def exampleContainer_def)

section \<open>Properties of the relative time\<close>

lemma fmt_d_examples:
  "fmt_d 45 = ''45''" "fmt_d 1 = ''1''" "fmt_d 2 = ''2''" "fmt_d 59 = ''59''"
  "fmt_d (- 5) = ''-5''" "fmt_d (- 16777217) = ''-16777217''"
  by (simp_all add: fmt_eval)

text \<open>
  Claim C7. The buckets have strict upper bounds: below one minute the text counts
  seconds, below one hour minutes, below one day hours, and days from there on. For every
  duration above \<open>- 2 ^ 24\<close> seconds and below 4096 hours the count is the duration in the
  unit of its bucket, truncated toward zero. So 45 seconds give \<open>45 seconds\<close>, 90 seconds
  \<open>1 minutes\<close>, 7200 seconds \<open>2 hours\<close>, 172800 seconds \<open>2 days\<close>, and 60 seconds are
  in the bucket of the minutes.
\<close>

theorem sinceDuration_buckets:
  "(- (2 ^ 24 * Second) < d \<and> d < 4096 * Hour \<longrightarrow>
      sinceDuration d =
        (if d < Minute then fmt_d (quo d Second) @ '' seconds''
         else if d < Hour then fmt_d (quo d Minute) @ '' minutes''
         else if d < 24 * Hour then fmt_d (quo d Hour) @ '' hours''
         else fmt_d (quo d (24 * Hour)) @ '' days'')) \<and>
   sinceDuration (45 * Second) = ''45 seconds'' \<and>
   sinceDuration (90 * Second) = ''1 minutes'' \<and>
   sinceDuration (7200 * Second) = ''2 hours'' \<and>
   sinceDuration (172800 * Second) = ''2 days'' \<and>
   sinceDuration (60 * Second) = ''1 minutes''"
proof -
  have ex: "sinceDuration (n * Second) =
        (if n * Second < Minute then fmt_d (quo (n * Second) Second) @ '' seconds''
         else if n * Second < Hour then fmt_d (quo (n * Second) Minute) @ '' minutes''
         else if n * Second < 24 * Hour then fmt_d (quo (n * Second) Hour) @ '' hours''
         else fmt_d (quo (n * Second) (24 * Hour)) @ '' days'')"
    if "0 \<le> n" "n < 14745600" for n
    using that by (intro sinceDuration_exact) (simp_all add: Hour_def Minute_def Second_def)
  have "sinceDuration (45 * Second) = ''45 seconds''"
    using ex [of 45] by (simp add: Hour_def Minute_def Second_def quo_def fmt_d_examples)
  moreover have "sinceDuration (90 * Second) = ''1 minutes''"
    using ex [of 90] by (simp add: Hour_def Minute_def Second_def quo_def fmt_d_examples)
  moreover have "sinceDuration (7200 * Second) = ''2 hours''"
    using ex [of 7200] by (simp add: Hour_def Minute_def Second_def quo_def fmt_d_examples)
  moreover have "sinceDuration (172800 * Second) = ''2 days''"
    using ex [of 172800] by (simp add: Hour_def Minute_def Second_def quo_def fmt_d_examples)
  moreover have "sinceDuration (60 * Second) = ''1 minutes''"
    using ex [of 60] by (simp add: Hour_def Minute_def Second_def quo_def fmt_d_examples)
  ultimately show ?thesis
    using sinceDuration_exact [of d] by blast
qed

text \<open>
  One nanosecond less than a minute is in the bucket of the seconds, with the count 59.
\<close>

theorem sinceDuration_buckets_witness:
  "- (2 ^ 24 * Second) < 59999999999 \<and> 59999999999 < 4096 * Hour \<and>
   sinceDuration 59999999999 = ''59 seconds''"
  using sinceDuration_buckets [of 59999999999]
  by (simp add: Hour_def Minute_def Second_def quo_def fmt_d_examples)

text \<open>
  The count is the truncation of a \<open>float64\<close>, and beyond 4096 hours that number can be
  the next whole number: one nanosecond less than 171 days has \<open>Hours\<close> equal to 4104, and
  is shown as \<open>171 days\<close>, although it has 170 whole days.
\<close>

theorem sinceDuration_days_counterexample:
  "sinceDuration (171 * (24 * Hour) - 1) = ''171 days'' \<and>
   quo (171 * (24 * Hour) - 1) (24 * Hour) = 170 \<and>
   sinceDuration (171 * (24 * Hour) - 1)
     \<noteq> fmt_d (quo (171 * (24 * Hour) - 1) (24 * Hour)) @ '' days''"
proof -
  have "fmt_d 170 = ''170''"
    by (simp add: fmt_eval)
  then show ?thesis
    using sinceDuration_171_days by simp
qed

lemma Sub_future: "now < t \<Longrightarrow> Sub now t < 0 \<and> minDuration \<le> Sub now t"
  by (simp add: Sub_def Let_def minDuration_def maxDuration_def)

text \<open>
  Claim C10. For a row inside the list, an inspection result whose start time
  parses to a time after the reading of the clock (a clock that is not before the zero
  time), \<open>showForRow\<close> returns normally and the details end with the line of the start
  time, whose relative time is in the bucket of the seconds. Its count \<open>n\<close> is not positive,
  it is negative once the start is a second or more ahead (nothing is clamped to zero), it
  is the number of seconds truncated toward zero when the start is less than \<open>2 ^ 24\<close>
  seconds ahead, and that number or one less in general.
\<close>

theorem future_start_time:
  assumes "0 \<le> row - 1" and "row - 1 < int (length (containers a))"
    and "c = containers a ! nat (row - 1)"
    and "ContainerInspect env (requests a) (ID c) = Ok ins"
    and "Parse env (insStartedAt ins) = Ok t"
    and "zeroTime \<le> Now env (clockReads a)"
    and "Now env (clockReads a) < t"
    and "d = Sub (Now env (clockReads a)) t"
    and "n = toInt (Seconds d)"
  shows "\<exists>a'. showForRow env a row = Some a' \<and>
     details a' = ''[::b]Name:[-] '' @ Name c @ newline
       @ ''[::b]ID:[-] '' @ ID c @ newline
       @ ''[::b]Image:[-] '' @ Image c @ newline
       @ ''[::b]State:[-] '' @ insStatus ins @ newline
       @ ''[::b]Status:[-] '' @ Status c @ newline
       @ ''[::b]Started:[-] '' @ FormatRFC1123 env t
       @ '' ('' @ fmt_d n @ '' seconds ago)'' @ newline \<and>
     n \<le> 0 \<and> (d \<le> - Second \<longrightarrow> n < 0) \<and>
     quo d Second - 1 \<le> n \<and> n \<le> quo d Second \<and>
     (- (2 ^ 24 * Second) < d \<longrightarrow> n = quo d Second)"
proof -
  have pt: "parseTime env (insStartedAt ins) = t"
    using assms(5) by (simp add: parseTime_def)
  have nz: "\<not> IsZero t"
    using assms(6,7) by (simp add: IsZero_def)
  have d: "d < 0" "minDuration \<le> d"
    using Sub_future [OF assms(7)] assms(8) by simp_all
  then have "d < Minute"
    by (simp add: Minute_def Second_def)
  then have s: "since (Now env (clockReads a)) t = fmt_d n @ '' seconds''"
    using assms(8,9) by (simp add: since_def sinceDuration_def)
  have b: "n \<le> 0" "quo d Second - 1 \<le> n" "n \<le> quo d Second" "d \<le> - Second \<longrightarrow> n < 0"
    using Seconds_negative [OF d] assms(9) by simp_all
  have ex: "- (2 ^ 24 * Second) < d \<longrightarrow> n = quo d Second"
    using toInt_Seconds_exact [of d] d(1) assms(9) by (simp add: Second_def)
  show ?thesis
    using assms(1-4) b ex
    by (simp add: showForRow_in showContainer_details_ok pt nz s)
qed

text \<open>
  A start time five seconds after the clock is shown as \<open>-5 seconds ago\<close>.
\<close>

theorem future_start_time_witness:
  "\<exists>a'. showForRow (exampleEnv (Err ''x'') (Ok \<lparr>insStatus = ''running'', insStartedAt = ''soon''\<rparr>)
            (Err ''x'') (Ok 63900000005000000000) 63900000000000000000) exampleApp 1 = Some a' \<and>
      details a' = ''[::b]Name:[-] web'' @ newline @ ''[::b]ID:[-] 4f2a'' @ newline
        @ ''[::b]Image:[-] nginx'' @ newline @ ''[::b]State:[-] running'' @ newline
        @ ''[::b]Status:[-] Up 2 hours'' @ newline
        @ ''[::b]Started:[-] Mon, 02 Jan 2006 15:04:05 MST (-5 seconds ago)'' @ newline"
proof -
  have d: "Sub 63900000000000000000 63900000005000000000 = - 5000000000"
    by (simp add: Sub_def minDuration_def maxDuration_def)
  have q: "quo (- 5000000000) Second = - 5"
    by (simp add: quo_def Second_def)
  have n: "toInt (Seconds (- 5000000000)) = - 5"
    using toInt_Seconds_exact [of "- 5000000000"] q by (simp add: Second_def)
  show ?thesis
    using future_start_time [of 1 exampleApp exampleSummary
      "exampleEnv (Err ''x'') (Ok \<lparr>insStatus = ''running'', insStartedAt = ''soon''\<rparr>)
         (Err ''x'') (Ok 63900000005000000000) 63900000000000000000"
      "\<lparr>insStatus = ''running'', insStartedAt = ''soon''\<rparr>" 63900000005000000000
      "- 5000000000" "toInt (Seconds (- 5000000000))"]
    by (auto simp add: exampleEnv_def exampleApp_def exampleSummary_def zeroTime_def d q n
        Second_def fmt_d_examples)
qed

text \<open>
  For a start time \<open>16777216.999999999\<close> seconds ahead the count is \<open>- 16777217\<close>, one
  less than the truncated number of seconds.
\<close>

theorem far_future_counterexample:
  "since 0 16777216999999999 = ''-16777217 seconds'' \<and>
   quo (Sub 0 16777216999999999) Second = - 16777216"
proof -
  have d: "Sub 0 16777216999999999 = - 16777216999999999"
    by (simp add: Sub_def minDuration_def maxDuration_def)
  have "toInt (Seconds (- 16777216999999999)) = - 16777217"
    by (simp add: Seconds_far_future toInt_def)
  then have "since 0 16777216999999999 = ''-16777217 seconds''"
    by (simp add: since_def d sinceDuration_def Minute_def Second_def fmt_d_examples)
  moreover have "quo (- 16777216999999999) Second = - 16777216"
    by (simp add: quo_def Second_def)
  ultimately show ?thesis
    by (simp add: d)
qed

end
